theory Spec2Isabelle
  imports Main
begin

section \<open>Order tracking notifier (js/notifications.js)\<close>

text \<open>
  The module keeps its orders in the browser's local storage under the key
  \<^verbatim>\<open>foodie:orders\<close>, schedules four status transitions with \<^verbatim>\<open>setTimeout\<close> and
  shows a notification at each status. The embedding makes the three collaborators
  explicit parts of a state: the storage cell, the host's timer queue, and the clock
  read by \<^verbatim>\<open>Date.now()\<close>. A synchronous call runs to completion at one clock value;
  time passes only between tasks of the event loop.
\<close>

subsection \<open>Data\<close>

text \<open>\<^verbatim>\<open>ORDER_STATUSES\<close>: the five status values, used as an enumeration.\<close>

datatype order_status = PLACED | PREPARING | READY | ON_WAY | DELIVERED

text \<open>\<^verbatim>\<open>ORDER_TIMINGS\<close>: milliseconds after the order was placed.\<close>

definition ORDER_TIMINGS_PREPARING :: int where "ORDER_TIMINGS_PREPARING = 10000"
definition ORDER_TIMINGS_READY :: int where "ORDER_TIMINGS_READY = 20000"
definition ORDER_TIMINGS_ON_WAY :: int where "ORDER_TIMINGS_ON_WAY = 30000"
definition ORDER_TIMINGS_DELIVERED :: int where "ORDER_TIMINGS_DELIVERED = 45000"

text \<open>
  The object \<^verbatim>\<open>orderData\<close> built by \<^verbatim>\<open>saveOrderStatus\<close>. The field \<^verbatim>\<open>id\<close> is
  called \<open>order_id\<close> here, since \<open>id\<close> is the identity function of HOL. Times are
  epoch milliseconds.
\<close>

record order_record =
  order_id :: string
  status :: order_status
  timestamp :: int
  lastUpdate :: int

text \<open>
  What \<^verbatim>\<open>localStorage.getItem('foodie:orders')\<close> can hold, classified by what
  \<^verbatim>\<open>JSON.parse\<close> and the array method called on its result do with it: the empty
  string (falsy, so \<^verbatim>\<open>|| '[]'\<close> replaces it), a text that is not JSON, a JSON text
  whose value is not an array, and the JSON text of an array of order records (all
  that \<^verbatim>\<open>saveOrderStatus\<close>, the only writer, ever stores). The key being absent
  (\<^verbatim>\<open>getItem\<close> returns \<^verbatim>\<open>null\<close>) is \<open>None\<close>.
\<close>

datatype stored_text = EmptyText | BadJson | OtherJson | OrdersJson "order_record list"

datatype error = SyntaxError | TypeError | QuotaExceededError

text \<open>
  The callbacks the module hands to \<^verbatim>\<open>setTimeout\<close>. The four closures of
  \<^verbatim>\<open>startOrderTracking\<close> all have the shape
  \<^verbatim>\<open>() => { saveOrderStatus(orderId, S, Date.now()); showOrderNotification(...) }\<close>
  and differ in the captured \<^verbatim>\<open>orderId\<close> and the status \<open>S\<close>. The closure of
  \<^verbatim>\<open>showOrderNotification\<close> is \<^verbatim>\<open>() => { notification.close(); }\<close>; the
  notification it captured is named by its position in the log of notifications.
\<close>

datatype callback = Transition string order_status | CloseNotification nat

record timer =
  handle :: nat
  due :: int
  action :: callback

text \<open>
  The state: the storage cell and whether a write to it fails (quota), whether
  notifications are available and granted, the clock, the host's pending timers and
  its next timer handle, the two module variables \<^verbatim>\<open>currentOrderId\<close> and
  \<^verbatim>\<open>orderStatusTimeouts\<close>, and three logs of what was observed: every record passed
  to a successful \<^verbatim>\<open>localStorage.setItem\<close>, every notification displayed (the
  status it announces and the order id in its body), and every notification closed
  by its timer (its position in the log of notifications).
\<close>

record state =
  storage :: "stored_text option"
  storage_full :: bool
  granted :: bool
  clock :: int
  pending :: "timer list"
  next_handle :: nat
  currentOrderId :: "string option"
  orderStatusTimeouts :: "nat list"
  written :: "order_record list"
  shown :: "(order_status \<times> string) list"
  closed :: "nat list"

text \<open>
  A call either returns or throws; JavaScript does not roll back, so a throw carries
  the state reached at that point.
\<close>

datatype outcome = Done state | Thrown error state

fun state_of :: "outcome \<Rightarrow> state" where
  "state_of (Done s) = s"
| "state_of (Thrown e s) = s"

fun and_then :: "outcome \<Rightarrow> (state \<Rightarrow> outcome) \<Rightarrow> outcome" where
  "and_then (Done s) f = f s"
| "and_then (Thrown e s) f = Thrown e s"

subsection \<open>Storage\<close>

text \<open>\<^verbatim>\<open>JSON.parse(localStorage.getItem('foodie:orders') || '[]')\<close>, used as an array.\<close>

fun read_orders :: "stored_text option \<Rightarrow> error + order_record list" where
  "read_orders None = Inr []"
| "read_orders (Some EmptyText) = Inr []"
| "read_orders (Some BadJson) = Inl SyntaxError"
| "read_orders (Some OtherJson) = Inl TypeError"
| "read_orders (Some (OrdersJson orders)) = Inr orders"

text \<open>\<^verbatim>\<open>Array.prototype.findIndex\<close>: the first index whose element satisfies \<open>P\<close>, or -1.\<close>

fun findIndex :: "('a \<Rightarrow> bool) \<Rightarrow> 'a list \<Rightarrow> int" where
  "findIndex P [] = -1"
| "findIndex P (x # xs) =
     (if P x then 0 else (let i = findIndex P xs in if i < 0 then -1 else i + 1))"

definition saveOrderStatus :: "string \<Rightarrow> order_status \<Rightarrow> int \<Rightarrow> state \<Rightarrow> outcome" where
  "saveOrderStatus orderId st ts s =
     (case read_orders (storage s) of
        Inl e \<Rightarrow> Thrown e s
      | Inr orders \<Rightarrow>
          (let existingOrderIndex = findIndex (\<lambda>r. order_id r = orderId) orders;
               orderData = \<lparr>order_id = orderId, status = st, timestamp = ts,
                            lastUpdate = clock s\<rparr>;
               orders' = (if existingOrderIndex \<ge> 0
                          then orders[nat existingOrderIndex := orderData]
                          else orders @ [orderData])
           in if storage_full s then Thrown QuotaExceededError s
              else Done (s\<lparr>storage := Some (OrdersJson orders'),
                            written := written s @ [orderData]\<rparr>)))"

definition getOrderStatus :: "string \<Rightarrow> state \<Rightarrow> error + order_record option" where
  "getOrderStatus orderId s =
     (case read_orders (storage s) of
        Inl e \<Rightarrow> Inl e
      | Inr orders \<Rightarrow> Inr (find (\<lambda>r. order_id r = orderId) orders))"

subsection \<open>Notifications and timers\<close>

text \<open>
  \<^verbatim>\<open>setTimeout(cb, delay)\<close> registers \<open>cb\<close> to run \<open>delay\<close> ms from now and returns
  a fresh handle; \<^verbatim>\<open>clearTimeout(h)\<close> drops the pending timer with that handle, if any.
\<close>

definition setTimeout :: "callback \<Rightarrow> int \<Rightarrow> state \<Rightarrow> nat \<times> state" where
  "setTimeout cb delay s =
     (next_handle s,
      s\<lparr>pending := pending s @ [\<lparr>handle = next_handle s, due = clock s + delay, action = cb\<rparr>],
        next_handle := Suc (next_handle s)\<rparr>)"

definition clearTimeout :: "nat \<Rightarrow> state \<Rightarrow> state" where
  "clearTimeout h s = s\<lparr>pending := filter (\<lambda>t. handle t \<noteq> h) (pending s)\<rparr>"

text \<open>
  \<^verbatim>\<open>showOrderNotification\<close> displays only when \<^verbatim>\<open>'Notification' in window\<close> and the
  permission is \<^verbatim>\<open>'granted'\<close>. The title and body are fixed texts per status around
  the order id, so a displayed notification is recorded as that pair. It then
  registers the timer that closes the notification after 5000 ms; the handle of that
  timer is dropped, so \<^verbatim>\<open>startOrderTracking\<close> never clears it. The click handler runs
  only when the user clicks and is not part of the model.
\<close>

definition showOrderNotification :: "order_status \<Rightarrow> string \<Rightarrow> state \<Rightarrow> state" where
  "showOrderNotification st orderId s =
     (if granted s then
        (let notification = length (shown s);
             s1 = s\<lparr>shown := shown s @ [(st, orderId)]\<rparr>
         in snd (setTimeout (CloseNotification notification) 5000 s1))
      else s)"

text \<open>\<^verbatim>\<open>orderStatusTimeouts.push(setTimeout(..., delay))\<close> for the transition to \<open>st\<close>.\<close>

definition schedule :: "string \<Rightarrow> order_status \<Rightarrow> int \<Rightarrow> state \<Rightarrow> state" where
  "schedule orderId st delay s =
     (let (h, s') = setTimeout (Transition orderId st) delay s
      in s'\<lparr>orderStatusTimeouts := orderStatusTimeouts s' @ [h]\<rparr>)"

subsection \<open>Tracking\<close>

definition startOrderTracking :: "string \<Rightarrow> state \<Rightarrow> outcome" where
  "startOrderTracking orderId s =
     (let s1 = s\<lparr>currentOrderId := Some orderId\<rparr>;
          startTime = clock s1;
          s2 = fold clearTimeout (orderStatusTimeouts s1) s1;
          s3 = s2\<lparr>orderStatusTimeouts := []\<rparr>
      in and_then (saveOrderStatus orderId PLACED startTime s3) (\<lambda>s4.
           Done (schedule orderId DELIVERED ORDER_TIMINGS_DELIVERED
                (schedule orderId ON_WAY ORDER_TIMINGS_ON_WAY
                (schedule orderId READY ORDER_TIMINGS_READY
                (schedule orderId PREPARING ORDER_TIMINGS_PREPARING
                (showOrderNotification PLACED orderId s4)))))))"

text \<open>
  \<^verbatim>\<open>activeOrders.sort((a, b) => b.timestamp - a.timestamp)[0]\<close>: the sort is stable and
  descending in \<open>timestamp\<close>, as \<open>sort_key\<close> with the negated key is.
\<close>

definition checkExistingOrders :: "state \<Rightarrow> outcome" where
  "checkExistingOrders s =
     (case read_orders (storage s) of
        Inl e \<Rightarrow> Thrown e s
      | Inr orders \<Rightarrow>
          (let activeOrders = filter (\<lambda>order.
                 clock s - lastUpdate order < ORDER_TIMINGS_DELIVERED \<and>
                 status order \<noteq> DELIVERED) orders
           in if length activeOrders > 0 then
                (let latestOrder = hd (sort_key (\<lambda>r. - timestamp r) activeOrders);
                     timeElapsed = clock s - timestamp latestOrder
                 in if timeElapsed < ORDER_TIMINGS_PREPARING then
                      startOrderTracking (order_id latestOrder) s
                    else if timeElapsed < ORDER_TIMINGS_READY then
                      and_then (saveOrderStatus (order_id latestOrder) PREPARING
                                  (timestamp latestOrder + ORDER_TIMINGS_PREPARING) s)
                        (startOrderTracking (order_id latestOrder))
                    else if timeElapsed < ORDER_TIMINGS_ON_WAY then
                      and_then (saveOrderStatus (order_id latestOrder) READY
                                  (timestamp latestOrder + ORDER_TIMINGS_READY) s)
                        (startOrderTracking (order_id latestOrder))
                    else if timeElapsed < ORDER_TIMINGS_DELIVERED then
                      and_then (saveOrderStatus (order_id latestOrder) ON_WAY
                                  (timestamp latestOrder + ORDER_TIMINGS_ON_WAY) s)
                        (startOrderTracking (order_id latestOrder))
                    else Done s)
              else Done s))"

subsection \<open>The event loop\<close>

text \<open>
  The pending timer that is due first; among timers due at the same time, the one
  registered first.
\<close>

fun earliest :: "timer list \<Rightarrow> timer option" where
  "earliest [] = None"
| "earliest (t # ts) =
     (case earliest ts of
        None \<Rightarrow> Some t
      | Some u \<Rightarrow> if due t \<le> due u then Some t else Some u)"

text \<open>
  Running a timer: it leaves the queue, the clock stands at its due time (or later, if
  it was overdue), and its callback runs. An exception thrown by the callback is
  reported by the host and the loop goes on, with the state the callback had reached.
\<close>

fun run_callback :: "callback \<Rightarrow> state \<Rightarrow> outcome" where
  "run_callback (Transition orderId st) s =
     and_then (saveOrderStatus orderId st (clock s) s) (\<lambda>s'.
       Done (showOrderNotification st orderId s'))"
| "run_callback (CloseNotification notification) s =
     Done (s\<lparr>closed := closed s @ [notification]\<rparr>)"

definition fire :: "timer \<Rightarrow> state \<Rightarrow> state" where
  "fire t s =
     state_of (run_callback (action t)
       (s\<lparr>pending := remove1 t (pending s), clock := max (clock s) (due t)\<rparr>))"

text \<open>The timers that run a status transition, as opposed to those closing a notification.\<close>

definition is_transition :: "timer \<Rightarrow> bool" where
  "is_transition t = (case action t of Transition orderId st \<Rightarrow> True | CloseNotification n \<Rightarrow> False)"

text \<open>
  Letting time pass until \<open>t\<close>: the timers due by then run in order, then the clock
  stands at \<open>t\<close>. A transition callback registers at most the timer that closes its
  notification, and that callback registers none, so this comes to an end.
\<close>

function advance_to :: "int \<Rightarrow> state \<Rightarrow> state" where
  "advance_to t s =
     (case earliest (pending s) of
        None \<Rightarrow> s\<lparr>clock := max (clock s) t\<rparr>
      | Some tm \<Rightarrow>
          if due tm \<le> t then advance_to t (fire tm s)
          else s\<lparr>clock := max (clock s) t\<rparr>)"
  by pat_completeness auto
termination
proof (relation "measure (\<lambda>(t, s). length (pending s) + length (filter is_transition (pending s)))")
  show "wf (measure (\<lambda>(t, s). length (pending s) + length (filter is_transition (pending s))))"
    by simp
next
  fix t :: int and s :: state and tm :: timer
  assume e: "earliest (pending s) = Some tm"
  have "earliest ts = Some u \<Longrightarrow> u \<in> set ts" for ts u
    by (induction ts arbitrary: u) (auto split: option.splits if_splits)
  with e have m: "tm \<in> set (pending s)" by blast
  then have l: "length (remove1 tm (pending s)) < length (pending s)"
    using length_pos_if_in_set [OF m] by (simp add: length_remove1)
  have f: "length (filter is_transition (remove1 tm (pending s))) \<le>
           length (filter is_transition (pending s))"
    by (simp add: filter_remove1 length_remove1)
  have "length (pending (fire tm s)) + length (filter is_transition (pending (fire tm s))) <
        length (pending s) + length (filter is_transition (pending s))"
  proof (cases "action tm")
    case (Transition orderId st)
    then have "is_transition tm" by (simp add: is_transition_def)
    with m have i: "tm \<in> set (filter is_transition (pending s))" by simp
    have "length (filter is_transition (remove1 tm (pending s))) <
          length (filter is_transition (pending s))"
      using i length_pos_if_in_set [OF i] by (simp add: filter_remove1 length_remove1)
    with l Transition show ?thesis
      by (auto simp: fire_def saveOrderStatus_def showOrderNotification_def setTimeout_def
            is_transition_def Let_def split: sum.splits)
  next
    case (CloseNotification n)
    with l f show ?thesis by (simp add: fire_def)
  qed
  then show "((t, fire tm s), (t, s)) \<in>
       measure (\<lambda>(t, s). length (pending s) + length (filter is_transition (pending s)))"
    by simp
qed

declare advance_to.simps [simp del]

subsection \<open>Sequences of operations\<close>

text \<open>
  What can happen to the module after the page has loaded: one of its four functions
  is called, or time passes by \<open>d\<close> ms and the timers due run. A call that throws
  leaves the state it had reached.
\<close>

datatype operation =
    StartTracking string
  | PersistStatus string order_status int
  | GetStatus string
  | ResumeOnLoad
  | TimePasses int

fun exec :: "operation \<Rightarrow> state \<Rightarrow> state" where
  "exec (StartTracking orderId) s = state_of (startOrderTracking orderId s)"
| "exec (PersistStatus orderId st ts) s = state_of (saveOrderStatus orderId st ts s)"
| "exec (GetStatus orderId) s = s"
| "exec ResumeOnLoad s = state_of (checkExistingOrders s)"
| "exec (TimePasses d) s = advance_to (clock s + d) s"

fun run :: "operation list \<Rightarrow> state \<Rightarrow> state" where
  "run [] s = s"
| "run (op # ops) s = run ops (exec op s)"

subsection \<open>Auxiliary notions\<close>

text \<open>
  The collection that \<^verbatim>\<open>saveOrderStatus\<close> writes back, as a function of the record
  and the collection read: the record replaces the first one with its id, or is
  appended.
\<close>

definition upsert :: "order_record \<Rightarrow> order_record list \<Rightarrow> order_record list" where
  "upsert r orders =
     (let i = findIndex (\<lambda>x. order_id x = order_id r) orders
      in if i \<ge> 0 then orders[nat i := r] else orders @ [r])"

text \<open>
  Every pending transition timer is one the module remembers in
  \<^verbatim>\<open>orderStatusTimeouts\<close>; the timers that close a notification are never
  remembered. This holds when the page has loaded and is kept by every operation
  (\<open>tracked_only_run\<close> below).
\<close>

definition tracked_only :: "state \<Rightarrow> bool" where
  "tracked_only s =
     list_all (\<lambda>t. handle t \<in> set (orderStatusTimeouts s)) (filter is_transition (pending s))"

text \<open>
  What the transition timers of a queue write and show when each runs at its due
  time, in the order of the queue.
\<close>

fun due_records :: "timer list \<Rightarrow> order_record list" where
  "due_records [] = []"
| "due_records (t # ts) =
     (case action t of
        Transition orderId st \<Rightarrow>
          \<lparr>order_id = orderId, status = st, timestamp = due t, lastUpdate = due t\<rparr> #
          due_records ts
      | CloseNotification n \<Rightarrow> due_records ts)"

fun due_notifications :: "timer list \<Rightarrow> (order_status \<times> string) list" where
  "due_notifications [] = []"
| "due_notifications (t # ts) =
     (case action t of
        Transition orderId st \<Rightarrow> (st, orderId) # due_notifications ts
      | CloseNotification n \<Rightarrow> due_notifications ts)"

text \<open>
  The state when the script has just been loaded (\<^verbatim>\<open>currentOrderId = null\<close>,
  \<^verbatim>\<open>orderStatusTimeouts = []\<close>, no timer pending), for a given storage cell, quota
  flag, notification permission and clock.
\<close>

definition loaded_page :: "stored_text option \<Rightarrow> bool \<Rightarrow> bool \<Rightarrow> int \<Rightarrow> state" where
  "loaded_page item full perm now =
     \<lparr>storage = item, storage_full = full, granted = perm, clock = now, pending = [],
      next_handle = 1, currentOrderId = None, orderStatusTimeouts = [],
      written = [], shown = [], closed = []\<rparr>"

text \<open>The storage cell holds a collection in which no two records share an id.\<close>

definition distinct_ids :: "state \<Rightarrow> bool" where
  "distinct_ids s =
     (case read_orders (storage s) of
        Inl e \<Rightarrow> False
      | Inr orders \<Rightarrow> distinct (map order_id orders))"

text \<open>The storage cell reads as a collection and accepts a write.\<close>

definition writable :: "state \<Rightarrow> bool" where
  "writable s =
     (case read_orders (storage s) of
        Inl e \<Rightarrow> False
      | Inr orders \<Rightarrow> \<not> storage_full s)"

subsection \<open>The stored collection\<close>

lemma findIndex_ge: "- 1 \<le> findIndex P xs"
  by (induction xs) (auto simp: Let_def)

lemma findIndex_neg_iff: "findIndex P xs < 0 \<longleftrightarrow> (\<forall>x\<in>set xs. \<not> P x)"
  using findIndex_ge [of P] by (induction xs) (auto simp: Let_def)

lemma findIndex_less: "findIndex P xs < int (length xs)"
  by (induction xs) (auto simp: Let_def)

lemma findIndex_nth: "0 \<le> findIndex P xs \<Longrightarrow> P (xs ! nat (findIndex P xs))"
  by (induction xs) (auto simp: Let_def nat_add_distrib split: if_splits)

lemma findIndex_least: "0 \<le> findIndex P xs \<Longrightarrow> j < nat (findIndex P xs) \<Longrightarrow> \<not> P (xs ! j)"
proof (induction xs arbitrary: j)
  case Nil
  then show ?case by simp
next
  case (Cons x xs)
  then show ?case
    by (cases j) (auto simp: Let_def nat_add_distrib split: if_splits)
qed

lemma upsert_Nil: "upsert r [] = [r]"
  by (simp add: upsert_def)

lemma upsert_Cons:
  "upsert r (x # xs) = (if order_id x = order_id r then r # xs else x # upsert r xs)"
  using findIndex_ge [of "\<lambda>x. order_id x = order_id r" xs]
  by (auto simp: upsert_def Let_def nat_add_distrib)

lemma find_upsert: "find (\<lambda>x. order_id x = order_id r) (upsert r os) = Some r"
  by (induction os) (simp_all add: upsert_Nil upsert_Cons)

lemma find_upsert_other:
  "i \<noteq> order_id r \<Longrightarrow> find (\<lambda>x. order_id x = i) (upsert r os) = find (\<lambda>x. order_id x = i) os"
  by (induction os) (simp_all add: upsert_Nil upsert_Cons)

lemma map_order_id_upsert:
  "map order_id (upsert r os) =
     (if order_id r \<in> order_id ` set os then map order_id os else map order_id os @ [order_id r])"
  by (induction os) (auto simp: upsert_Nil upsert_Cons)

lemma distinct_upsert:
  "distinct (map order_id os) \<Longrightarrow> distinct (map order_id (upsert r os))"
  by (simp add: map_order_id_upsert)

lemma upsert_upsert:
  "order_id r' = order_id r \<Longrightarrow> upsert r' (upsert r os) = upsert r' os"
  by (induction os) (simp_all add: upsert_Nil upsert_Cons)

lemma filter_upsert_other:
  "filter (\<lambda>x. order_id x \<noteq> order_id r) (upsert r os) = filter (\<lambda>x. order_id x \<noteq> order_id r) os"
  by (induction os) (simp_all add: upsert_Nil upsert_Cons)

lemma saveOrderStatus_Done:
  "read_orders (storage s) = Inr os \<Longrightarrow> \<not> storage_full s \<Longrightarrow>
   saveOrderStatus orderId st ts s =
     Done (s\<lparr>storage := Some (OrdersJson
                 (upsert \<lparr>order_id = orderId, status = st, timestamp = ts, lastUpdate = clock s\<rparr> os)),
             written := written s @
                 [\<lparr>order_id = orderId, status = st, timestamp = ts, lastUpdate = clock s\<rparr>]\<rparr>)"
  by (simp add: saveOrderStatus_def upsert_def Let_def)

lemma saveOrderStatus_unreadable:
  "read_orders (storage s) = Inl e \<Longrightarrow> saveOrderStatus orderId st ts s = Thrown e s"
  by (simp add: saveOrderStatus_def)

lemma saveOrderStatus_full:
  "read_orders (storage s) = Inr os \<Longrightarrow> storage_full s \<Longrightarrow>
   saveOrderStatus orderId st ts s = Thrown QuotaExceededError s"
  by (simp add: saveOrderStatus_def Let_def)

lemma length_upsert: "length os \<le> length (upsert r os)"
  by (induction os) (simp_all add: upsert_Nil upsert_Cons)

lemma nth_upsert_other:
  "j < length os \<Longrightarrow> order_id (os ! j) \<noteq> order_id r \<Longrightarrow> upsert r os ! j = os ! j"
proof (induction os arbitrary: j)
  case Nil
  then show ?case by simp
next
  case (Cons x xs)
  then show ?case by (cases j) (auto simp: upsert_Cons)
qed

lemma take_upsert_ids:
  "map order_id (take (length os) (upsert r os)) = map order_id os"
  by (induction os) (simp_all add: upsert_Nil upsert_Cons)

lemma upsert_replace:
  "\<exists>x\<in>set os. order_id x = order_id r \<Longrightarrow>
   \<exists>i<length os. order_id (os ! i) = order_id r \<and> (\<forall>j<i. order_id (os ! j) \<noteq> order_id r) \<and>
      upsert r os = os[i := r]"
proof -
  let ?P = "\<lambda>x. order_id x = order_id r"
  let ?i = "findIndex ?P os"
  assume "\<exists>x\<in>set os. order_id x = order_id r"
  then have nn: "0 \<le> ?i" using findIndex_neg_iff [of ?P os] by auto
  have "nat ?i < length os" using findIndex_less [of ?P os] nn by simp
  moreover have "?P (os ! nat ?i)" using nn by (rule findIndex_nth)
  moreover have "\<forall>j<nat ?i. \<not> ?P (os ! j)" using findIndex_least [OF nn] by blast
  moreover have "upsert r os = os[nat ?i := r]" using nn by (simp add: upsert_def)
  ultimately show ?thesis by blast
qed

lemma upsert_append:
  "\<not> (\<exists>x\<in>set os. order_id x = order_id r) \<Longrightarrow> upsert r os = os @ [r]"
  using findIndex_neg_iff [of "\<lambda>x. order_id x = order_id r" os]
  by (auto simp: upsert_def Let_def)

lemma find_distinct:
  "distinct (map order_id os) \<Longrightarrow> r \<in> set os \<Longrightarrow> find (\<lambda>x. order_id x = order_id r) os = Some r"
  by (induction os) (auto simp: image_iff)

subsection \<open>What a call of \<open>startOrderTracking\<close> leaves\<close>

lemma fold_clearTimeout:
  "fold clearTimeout hs s = s\<lparr>pending := filter (\<lambda>t. handle t \<notin> set hs) (pending s)\<rparr>"
proof (induction hs arbitrary: s)
  case Nil
  then show ?case by simp
next
  case (Cons h hs)
  have "filter (\<lambda>t. handle t \<notin> set hs) (filter (\<lambda>t. handle t \<noteq> h) (pending s)) =
        filter (\<lambda>t. handle t \<notin> set (h # hs)) (pending s)"
    by (induction "pending s") auto
  with Cons show ?case by (simp add: clearTimeout_def)
qed

lemma startOrderTracking_Done:
  fixes s :: state
  defines "h \<equiv> next_handle s + (if granted s then 1 else 0)"
  assumes "read_orders (storage s) = Inr os" and "\<not> storage_full s"
  shows "startOrderTracking orderId s =
     Done (s\<lparr>storage := Some (OrdersJson (upsert
                \<lparr>order_id = orderId, status = PLACED, timestamp = clock s, lastUpdate = clock s\<rparr> os)),
             written := written s @
                [\<lparr>order_id = orderId, status = PLACED, timestamp = clock s, lastUpdate = clock s\<rparr>],
             shown := (if granted s then shown s @ [(PLACED, orderId)] else shown s),
             currentOrderId := Some orderId,
             orderStatusTimeouts := [h, h + 1, h + 2, h + 3],
             next_handle := h + 4,
             pending := filter (\<lambda>t. handle t \<notin> set (orderStatusTimeouts s)) (pending s) @
                (if granted s
                 then [\<lparr>handle = next_handle s, due = clock s + 5000,
                          action = CloseNotification (length (shown s))\<rparr>]
                 else []) @
                [\<lparr>handle = h, due = clock s + 10000, action = Transition orderId PREPARING\<rparr>,
                 \<lparr>handle = h + 1, due = clock s + 20000, action = Transition orderId READY\<rparr>,
                 \<lparr>handle = h + 2, due = clock s + 30000, action = Transition orderId ON_WAY\<rparr>,
                 \<lparr>handle = h + 3, due = clock s + 45000,
                    action = Transition orderId DELIVERED\<rparr>]\<rparr>)"
  using assms(2,3) unfolding h_def
  by (cases "granted s")
     (simp_all add: startOrderTracking_def Let_def fold_clearTimeout
        saveOrderStatus_Done [where os = os] schedule_def setTimeout_def
        showOrderNotification_def ORDER_TIMINGS_PREPARING_def ORDER_TIMINGS_READY_def
        ORDER_TIMINGS_ON_WAY_def ORDER_TIMINGS_DELIVERED_def)

lemma startOrderTracking_Thrown:
  assumes "read_orders (storage s) = Inl e"
  shows "startOrderTracking orderId s =
     Thrown e (s\<lparr>currentOrderId := Some orderId, orderStatusTimeouts := [],
                 pending := filter (\<lambda>t. handle t \<notin> set (orderStatusTimeouts s)) (pending s)\<rparr>)"
  using assms
  by (simp add: startOrderTracking_def Let_def fold_clearTimeout
        saveOrderStatus_unreadable [where e = e])

lemma startOrderTracking_full:
  assumes "read_orders (storage s) = Inr os" and "storage_full s"
  shows "startOrderTracking orderId s =
     Thrown QuotaExceededError (s\<lparr>currentOrderId := Some orderId, orderStatusTimeouts := [],
                 pending := filter (\<lambda>t. handle t \<notin> set (orderStatusTimeouts s)) (pending s)\<rparr>)"
  using assms
  by (simp add: startOrderTracking_def Let_def fold_clearTimeout
        saveOrderStatus_full [where os = os])

subsection \<open>Properties kept by every operation\<close>

lemma saveOrderStatus_cases:
  obtains (unreadable) e where "read_orders (storage s) = Inl e"
      and "saveOrderStatus orderId st ts s = Thrown e s"
  | (full) os where "read_orders (storage s) = Inr os" and "storage_full s"
      and "saveOrderStatus orderId st ts s = Thrown QuotaExceededError s"
  | (stored) os where "read_orders (storage s) = Inr os" and "\<not> storage_full s"
      and "saveOrderStatus orderId st ts s =
        Done (s\<lparr>storage := Some (OrdersJson (upsert
                \<lparr>order_id = orderId, status = st, timestamp = ts, lastUpdate = clock s\<rparr> os)),
               written := written s @
                [\<lparr>order_id = orderId, status = st, timestamp = ts, lastUpdate = clock s\<rparr>]\<rparr>)"
proof (cases "read_orders (storage s)")
  case (Inl e)
  then show ?thesis using unreadable saveOrderStatus_unreadable by blast
next
  case (Inr os)
  then show ?thesis
    using full [OF Inr] stored [OF Inr] saveOrderStatus_full [OF Inr] saveOrderStatus_Done [OF Inr]
    by (cases "storage_full s") blast+
qed

lemma state_of_and_then:
  "state_of (and_then out f) = (case out of Done s \<Rightarrow> state_of (f s) | Thrown e s \<Rightarrow> s)"
  by (cases out) simp_all

text \<open>A property kept by the two writers is kept by everything else.\<close>

lemma fire_keeps:
  assumes save: "\<And>orderId st ts s. P s \<Longrightarrow> P (state_of (saveOrderStatus orderId st ts s))"
    and shw: "\<And>orderId st s. P s \<Longrightarrow> P (showOrderNotification st orderId s)"
    and deq: "\<And>s x. P s \<Longrightarrow> P (s\<lparr>pending := remove1 x (pending s)\<rparr>)"
    and clk: "\<And>s c. P s \<Longrightarrow> P (s\<lparr>clock := c\<rparr>)"
    and cls: "\<And>s c. P s \<Longrightarrow> P (s\<lparr>closed := c\<rparr>)"
    and "P s"
  shows "P (fire t s)"
proof -
  let ?s1 = "s\<lparr>pending := remove1 t (pending s), clock := max (clock s) (due t)\<rparr>"
  have s1: "P ?s1" using \<open>P s\<close> by (intro clk deq)
  show ?thesis
  proof (cases "action t")
    case (Transition orderId st)
    from s1 have "P (state_of (saveOrderStatus orderId st (clock ?s1) ?s1))" by (rule save)
    then show ?thesis
      using shw Transition
      by (cases "saveOrderStatus orderId st (clock ?s1) ?s1") (simp_all add: fire_def)
  next
    case (CloseNotification n)
    then show ?thesis using cls [OF s1] by (simp add: fire_def)
  qed
qed

lemma advance_to_keeps:
  assumes "\<And>t s. P s \<Longrightarrow> P (fire t s)"
    and "\<And>s c. P s \<Longrightarrow> P (s\<lparr>clock := c\<rparr>)"
    and "P s"
  shows "P (advance_to t s)"
  using \<open>P s\<close>
proof (induction t s rule: advance_to.induct)
  case (1 t s)
  show ?case
  proof (cases "earliest (pending s)")
    case None
    then show ?thesis using assms(2) [OF "1.prems"] by (simp add: advance_to.simps)
  next
    case (Some tm)
    show ?thesis
    proof (cases "due tm \<le> t")
      case True
      have "P (fire tm s)" using "1.prems" by (rule assms(1))
      with "1.IH" [OF Some True] Some True show ?thesis by (simp add: advance_to.simps)
    next
      case False
      with Some show ?thesis using assms(2) [OF "1.prems"] by (simp add: advance_to.simps)
    qed
  qed
qed

lemma checkExistingOrders_selects:
  assumes "read_orders (storage s) = Inr os"
  obtains (idle) "checkExistingOrders s = Done s"
  | (resume) x where "x \<in> set os" and "clock s - lastUpdate x < 45000"
      and "status x \<noteq> DELIVERED"
      and "checkExistingOrders s = startOrderTracking (order_id x) s"
  | (skip) x st ts where "x \<in> set os" and "clock s - lastUpdate x < 45000"
      and "status x \<noteq> DELIVERED"
      and "checkExistingOrders s =
             and_then (saveOrderStatus (order_id x) st ts s) (startOrderTracking (order_id x))"
proof -
  define active where "active = filter (\<lambda>order.
      clock s - lastUpdate order < ORDER_TIMINGS_DELIVERED \<and> status order \<noteq> DELIVERED) os"
  define latest where "latest = hd (sort_key (\<lambda>r. - timestamp r) active)"
  define elapsed where "elapsed = clock s - timestamp latest"
  have c: "checkExistingOrders s =
    (if length active > 0 then
       if elapsed < ORDER_TIMINGS_PREPARING then startOrderTracking (order_id latest) s
       else if elapsed < ORDER_TIMINGS_READY then
         and_then (saveOrderStatus (order_id latest) PREPARING
                     (timestamp latest + ORDER_TIMINGS_PREPARING) s)
           (startOrderTracking (order_id latest))
       else if elapsed < ORDER_TIMINGS_ON_WAY then
         and_then (saveOrderStatus (order_id latest) READY
                     (timestamp latest + ORDER_TIMINGS_READY) s)
           (startOrderTracking (order_id latest))
       else if elapsed < ORDER_TIMINGS_DELIVERED then
         and_then (saveOrderStatus (order_id latest) ON_WAY
                     (timestamp latest + ORDER_TIMINGS_ON_WAY) s)
           (startOrderTracking (order_id latest))
       else Done s
     else Done s)"
    using assms by (simp add: checkExistingOrders_def Let_def active_def latest_def elapsed_def)
  show ?thesis
  proof (cases "length active > 0 \<and> elapsed < ORDER_TIMINGS_DELIVERED")
    case False
    with c have "checkExistingOrders s = Done s"
      by (simp add: ORDER_TIMINGS_PREPARING_def ORDER_TIMINGS_READY_def
            ORDER_TIMINGS_ON_WAY_def ORDER_TIMINGS_DELIVERED_def split: if_splits)
    then show ?thesis by (rule idle)
  next
    case True
    then have "sort_key (\<lambda>r. - timestamp r) active \<noteq> []"
      using length_sort [of "\<lambda>r. - timestamp r" active] by fastforce
    then have "latest \<in> set (sort_key (\<lambda>r. - timestamp r) active)"
      unfolding latest_def by (rule hd_in_set)
    then have "latest \<in> set active" by simp
    then have l: "latest \<in> set os" "clock s - lastUpdate latest < 45000"
      "status latest \<noteq> DELIVERED"
      by (simp_all add: active_def ORDER_TIMINGS_DELIVERED_def)
    from True c resume [OF l] skip [OF l] show ?thesis by (simp split: if_splits)
  qed
qed

lemma checkExistingOrders_cases:
  obtains (unreadable) e where "checkExistingOrders s = Thrown e s"
  | (idle) "checkExistingOrders s = Done s"
  | (resume) orderId where "checkExistingOrders s = startOrderTracking orderId s"
  | (skip) orderId st ts where
      "checkExistingOrders s = and_then (saveOrderStatus orderId st ts s) (startOrderTracking orderId)"
proof (cases "read_orders (storage s)")
  case (Inl e)
  then have "checkExistingOrders s = Thrown e s" by (simp add: checkExistingOrders_def)
  then show ?thesis by (rule unreadable)
next
  case (Inr os)
  then show ?thesis
    using idle resume skip by (cases rule: checkExistingOrders_selects) blast+
qed

lemma checkExistingOrders_keeps:
  assumes save: "\<And>orderId st ts s. P s \<Longrightarrow> P (state_of (saveOrderStatus orderId st ts s))"
    and start: "\<And>orderId s. P s \<Longrightarrow> P (state_of (startOrderTracking orderId s))"
    and "P s"
  shows "P (state_of (checkExistingOrders s))"
proof (cases s rule: checkExistingOrders_cases)
  case (skip orderId st ts)
  have "P (state_of (saveOrderStatus orderId st ts s))" using \<open>P s\<close> by (rule save)
  then show ?thesis
    using skip start
    by (cases "saveOrderStatus orderId st ts s") simp_all
qed (simp_all add: assms)

lemma run_keeps:
  assumes save: "\<And>orderId st ts s. P s \<Longrightarrow> P (state_of (saveOrderStatus orderId st ts s))"
    and start: "\<And>orderId s. P s \<Longrightarrow> P (state_of (startOrderTracking orderId s))"
    and shw: "\<And>orderId st s. P s \<Longrightarrow> P (showOrderNotification st orderId s)"
    and deq: "\<And>s x. P s \<Longrightarrow> P (s\<lparr>pending := remove1 x (pending s)\<rparr>)"
    and clk: "\<And>s c. P s \<Longrightarrow> P (s\<lparr>clock := c\<rparr>)"
    and cls: "\<And>s c. P s \<Longrightarrow> P (s\<lparr>closed := c\<rparr>)"
    and "P s"
  shows "P (run ops s)"
  using \<open>P s\<close>
proof (induction ops arbitrary: s)
  case Nil
  then show ?case by simp
next
  case (Cons op ops)
  have f: "P (fire t s)" if "P s" for t s
    using save shw deq clk cls that by (rule fire_keeps)
  have "P (exec op s)"
  proof (cases op)
    case (StartTracking orderId)
    then show ?thesis using start [OF Cons.prems] by simp
  next
    case (PersistStatus orderId st ts)
    then show ?thesis using save [OF Cons.prems] by simp
  next
    case (GetStatus orderId)
    then show ?thesis using Cons.prems by simp
  next
    case ResumeOnLoad
    then show ?thesis using checkExistingOrders_keeps [of P, OF save start Cons.prems] by simp
  next
    case (TimePasses d)
    then show ?thesis using advance_to_keeps [of P, OF f clk Cons.prems] by simp
  qed
  then show ?case using Cons.IH by simp
qed

lemma startOrderTracking_cases:
  obtains (unreadable) e where "read_orders (storage s) = Inl e"
      and "startOrderTracking orderId s =
        Thrown e (s\<lparr>currentOrderId := Some orderId, orderStatusTimeouts := [],
                 pending := filter (\<lambda>t. handle t \<notin> set (orderStatusTimeouts s)) (pending s)\<rparr>)"
  | (full) os where "read_orders (storage s) = Inr os" and "storage_full s"
      and "startOrderTracking orderId s =
        Thrown QuotaExceededError (s\<lparr>currentOrderId := Some orderId, orderStatusTimeouts := [],
                 pending := filter (\<lambda>t. handle t \<notin> set (orderStatusTimeouts s)) (pending s)\<rparr>)"
  | (started) os s' h where "read_orders (storage s) = Inr os" and "\<not> storage_full s"
      and "startOrderTracking orderId s = Done s'"
      and "storage s' = Some (OrdersJson (upsert
                \<lparr>order_id = orderId, status = PLACED, timestamp = clock s, lastUpdate = clock s\<rparr> os))"
      and "filter is_transition (pending s') =
             filter is_transition
               (filter (\<lambda>t. handle t \<notin> set (orderStatusTimeouts s)) (pending s)) @
             [\<lparr>handle = h, due = clock s + 10000, action = Transition orderId PREPARING\<rparr>,
              \<lparr>handle = h + 1, due = clock s + 20000, action = Transition orderId READY\<rparr>,
              \<lparr>handle = h + 2, due = clock s + 30000, action = Transition orderId ON_WAY\<rparr>,
              \<lparr>handle = h + 3, due = clock s + 45000, action = Transition orderId DELIVERED\<rparr>]"
      and "orderStatusTimeouts s' = [h, h + 1, h + 2, h + 3]"
      and "storage_full s' = storage_full s"
proof (cases "read_orders (storage s)")
  case (Inl e)
  then show ?thesis using unreadable startOrderTracking_Thrown by blast
next
  case (Inr os)
  show ?thesis
  proof (cases "storage_full s")
    case True
    then show ?thesis using full [OF Inr] startOrderTracking_full [OF Inr] by blast
  next
    case False
    show ?thesis
      by (rule started [OF Inr False startOrderTracking_Done [OF Inr False]])
         (simp_all add: is_transition_def)
  qed
qed

lemma tracked_only_filter:
  "tracked_only s \<Longrightarrow>
   filter is_transition (filter (\<lambda>t. handle t \<notin> set (orderStatusTimeouts s)) (pending s)) = []"
  by (auto simp: tracked_only_def list_all_iff filter_empty_conv)

lemma distinct_ids_saveOrderStatus:
  assumes "distinct_ids s"
  shows "distinct_ids (state_of (saveOrderStatus orderId st ts s))"
  by (rule saveOrderStatus_cases [where s = s and orderId = orderId and st = st and ts = ts])
     (use assms in \<open>auto simp: distinct_ids_def distinct_upsert\<close>)

lemma distinct_ids_startOrderTracking:
  assumes "distinct_ids s"
  shows "distinct_ids (state_of (startOrderTracking orderId s))"
  by (rule startOrderTracking_cases [where s = s and orderId = orderId])
     (use assms in \<open>auto simp: distinct_ids_def distinct_upsert\<close>)

lemma distinct_ids_run: "distinct_ids s \<Longrightarrow> distinct_ids (run ops s)"
proof (rule run_keeps [of distinct_ids])
  show "distinct_ids (showOrderNotification st orderId s)" if "distinct_ids s" for orderId st s
    using that by (simp add: distinct_ids_def showOrderNotification_def setTimeout_def Let_def)
  show "distinct_ids (s\<lparr>pending := remove1 x (pending s)\<rparr>)" if "distinct_ids s" for s x
    using that by (simp add: distinct_ids_def)
  show "distinct_ids (s\<lparr>clock := c\<rparr>)" if "distinct_ids s" for s c
    using that by (simp add: distinct_ids_def)
  show "distinct_ids (s\<lparr>closed := c\<rparr>)" if "distinct_ids s" for s c
    using that by (simp add: distinct_ids_def)
qed (simp_all add: distinct_ids_saveOrderStatus distinct_ids_startOrderTracking)

lemma tracked_only_saveOrderStatus:
  assumes "tracked_only s"
  shows "tracked_only (state_of (saveOrderStatus orderId st ts s))"
  by (rule saveOrderStatus_cases [where s = s and orderId = orderId and st = st and ts = ts])
     (use assms in \<open>auto simp: tracked_only_def\<close>)

lemma tracked_only_startOrderTracking:
  assumes "tracked_only s"
  shows "tracked_only (state_of (startOrderTracking orderId s))"
  by (rule startOrderTracking_cases [where s = s and orderId = orderId])
     (use assms tracked_only_filter [OF assms] in \<open>auto simp: tracked_only_def\<close>)

lemma tracked_only_showOrderNotification:
  "tracked_only s \<Longrightarrow> tracked_only (showOrderNotification st orderId s)"
  by (simp add: tracked_only_def showOrderNotification_def setTimeout_def Let_def
        is_transition_def)

lemma tracked_only_remove1:
  "tracked_only s \<Longrightarrow> tracked_only (s\<lparr>pending := remove1 x (pending s)\<rparr>)"
  using set_remove1_subset [of x "filter is_transition (pending s)"]
  by (auto simp: tracked_only_def list_all_iff filter_remove1)

lemma tracked_only_run: "tracked_only s \<Longrightarrow> tracked_only (run ops s)"
proof (rule run_keeps [of tracked_only])
  show "tracked_only (s\<lparr>clock := c\<rparr>)" if "tracked_only s" for s c
    using that by (simp add: tracked_only_def)
  show "tracked_only (s\<lparr>closed := c\<rparr>)" if "tracked_only s" for s c
    using that by (simp add: tracked_only_def)
qed (simp_all add: tracked_only_saveOrderStatus tracked_only_startOrderTracking
       tracked_only_showOrderNotification tracked_only_remove1)

lemma tracked_only_loaded_page: "tracked_only (loaded_page item full perm now)"
  by (simp add: tracked_only_def loaded_page_def)

subsection \<open>A session run to its end\<close>

lemma saveOrderStatus_upsert:
  "saveOrderStatus orderId st ts s =
     (case read_orders (storage s) of
        Inl e \<Rightarrow> Thrown e s
      | Inr os \<Rightarrow>
          if storage_full s then Thrown QuotaExceededError s
          else Done (s\<lparr>storage := Some (OrdersJson (upsert
                         \<lparr>order_id = orderId, status = st, timestamp = ts, lastUpdate = clock s\<rparr> os)),
                       written := written s @
                         [\<lparr>order_id = orderId, status = st, timestamp = ts, lastUpdate = clock s\<rparr>]\<rparr>))"
  by (simp add: saveOrderStatus_def upsert_def Let_def split: sum.splits)

lemma earliest_None: "earliest ts = None \<longleftrightarrow> ts = []"
  by (induction ts) (auto split: option.splits)

lemma earliest_in: "earliest ts = Some t \<Longrightarrow> t \<in> set ts"
  by (induction ts arbitrary: t) (auto split: option.splits if_splits)

lemma earliest_le: "earliest ts = Some t \<Longrightarrow> u \<in> set ts \<Longrightarrow> due t \<le> due u"
  by (induction ts arbitrary: t) (fastforce simp: earliest_None split: option.splits if_splits)+

lemma fire_close:
  "action tm = CloseNotification n \<Longrightarrow>
   fire tm s = s\<lparr>pending := remove1 tm (pending s), clock := max (clock s) (due tm),
                 closed := closed s @ [n]\<rparr>"
  by (simp add: fire_def)

lemma fire_transition:
  assumes "action tm = Transition orderId st"
    and "read_orders (storage s) = Inr os" and "\<not> storage_full s" and "clock s \<le> due tm"
  shows "storage (fire tm s) = Some (OrdersJson (upsert
            \<lparr>order_id = orderId, status = st, timestamp = due tm, lastUpdate = due tm\<rparr> os))"
    and "written (fire tm s) = written s @
            [\<lparr>order_id = orderId, status = st, timestamp = due tm, lastUpdate = due tm\<rparr>]"
    and "shown (fire tm s) = (if granted s then shown s @ [(st, orderId)] else shown s)"
    and "filter is_transition (pending (fire tm s)) = remove1 tm (filter is_transition (pending s))"
    and "clock (fire tm s) = due tm"
    and "granted (fire tm s) = granted s"
    and "storage_full (fire tm s) = storage_full s"
  using assms
  by (simp_all add: fire_def saveOrderStatus_Done [where os = os] showOrderNotification_def
        setTimeout_def Let_def filter_remove1 is_transition_def max_def)

text \<open>
  Time passing over a queue whose transition timers are due in the order of the
  queue, none before the clock and none after \<open>t\<close>: each runs at its due time,
  whatever timers that close notifications run in between.
\<close>

lemma advance_to_transitions:
  assumes "read_orders (storage s) = Inr os" and "\<not> storage_full s"
    and "sorted_wrt (\<lambda>a b. due a < due b) (filter is_transition (pending s))"
    and "\<forall>tm\<in>set (filter is_transition (pending s)). clock s \<le> due tm \<and> due tm \<le> t"
  shows "read_orders (storage (advance_to t s)) =
           Inr (foldl (\<lambda>os r. upsert r os) os (due_records (filter is_transition (pending s)))) \<and>
         written (advance_to t s) =
           written s @ due_records (filter is_transition (pending s)) \<and>
         shown (advance_to t s) =
           shown s @ (if granted s then due_notifications (filter is_transition (pending s))
                      else []) \<and>
         filter is_transition (pending (advance_to t s)) = []"
  using assms
proof (induction t s arbitrary: os rule: advance_to.induct)
  case (1 t s)
  let ?T = "filter is_transition (pending s)"
  show ?case
  proof (cases "earliest (pending s)")
    case None
    then have "pending s = []" by (simp add: earliest_None)
    with None "1.prems" show ?thesis by (simp add: advance_to.simps)
  next
    case (Some tm)
    have first: "due tm \<le> due u" if "u \<in> set (pending s)" for u
      using Some that by (rule earliest_le)
    have tm: "tm \<in> set (pending s)" using Some by (rule earliest_in)
    show ?thesis
    proof (cases "due tm \<le> t")
      case False
      have "?T = []"
      proof (rule ccontr)
        assume "?T \<noteq> []"
        then obtain u where u: "u \<in> set ?T" by (cases ?T) auto
        then have "due u \<le> t" using "1.prems"(4) by blast
        moreover have "due tm \<le> due u" using u by (intro first) simp
        ultimately show False using False by simp
      qed
      with Some False "1.prems" show ?thesis by (simp add: advance_to.simps)
    next
      case True
      have adv: "advance_to t s = advance_to t (fire tm s)"
        using Some True by (simp add: advance_to.simps)
      show ?thesis
      proof (cases "action tm")
        case (CloseNotification n)
        let ?s1 = "fire tm s"
        have s1: "?s1 = s\<lparr>pending := remove1 tm (pending s), clock := max (clock s) (due tm),
                            closed := closed s @ [n]\<rparr>"
          using CloseNotification by (rule fire_close)
        have "tm \<notin> set ?T" using CloseNotification by (simp add: is_transition_def)
        then have T1: "filter is_transition (pending ?s1) = ?T"
          by (simp add: s1 filter_remove1 remove1_idem)
        have c1: "\<forall>u\<in>set ?T. clock ?s1 \<le> due u \<and> due u \<le> t"
          using "1.prems"(4) first by (auto simp: s1)
        have "read_orders (storage ?s1) = Inr os" and "\<not> storage_full ?s1"
          using "1.prems"(1,2) by (simp_all add: s1)
        from "1.IH" [OF Some True this] "1.prems"(3) c1
        show ?thesis unfolding adv T1 by (simp add: s1)
      next
        case (Transition orderId st)
        let ?s1 = "fire tm s"
        let ?r = "\<lparr>order_id = orderId, status = st, timestamp = due tm, lastUpdate = due tm\<rparr>"
        have mem: "tm \<in> set ?T" using tm Transition by (simp add: is_transition_def)
        then obtain x rest where T: "?T = x # rest" by (cases ?T) auto
        have "tm = x"
        proof (rule ccontr)
          assume "tm \<noteq> x"
          with mem T have "tm \<in> set rest" by simp
          with "1.prems"(3) T have "due x < due tm" by simp
          moreover have "due tm \<le> due x"
          proof (rule first)
            have "x \<in> set ?T" by (simp add: T)
            then show "x \<in> set (pending s)" by simp
          qed
          ultimately show False by simp
        qed
        with T have T: "?T = tm # rest" by simp
        have now: "clock s \<le> due tm" using "1.prems"(4) mem by blast
        note f = fire_transition [OF Transition "1.prems"(1,2) now]
        have T1: "filter is_transition (pending ?s1) = rest" by (simp add: f(4) T)
        have r1: "read_orders (storage ?s1) = Inr (upsert ?r os)" by (simp add: f(1))
        have f1: "\<not> storage_full ?s1" using "1.prems"(2) by (simp add: f(7))
        have o1: "sorted_wrt (\<lambda>a b. due a < due b) (filter is_transition (pending ?s1))"
          using "1.prems"(3) by (simp add: T1 T)
        have c1: "\<forall>u\<in>set (filter is_transition (pending ?s1)). clock ?s1 \<le> due u \<and> due u \<le> t"
          using "1.prems"(3,4) by (auto simp: T1 T f(5))
        from "1.IH" [OF Some True r1 f1 o1 c1]
        show ?thesis
          unfolding adv T1 T by (simp add: f Transition)
      qed
    qed
  qed
qed

lemma writable_iff: "writable s \<longleftrightarrow> (\<exists>os. read_orders (storage s) = Inr os) \<and> \<not> storage_full s"
  by (simp add: writable_def split: sum.splits)

lemma writable_saveOrderStatus:
  assumes "writable s"
  shows "writable (state_of (saveOrderStatus orderId st ts s))"
  by (rule saveOrderStatus_cases [where s = s and orderId = orderId and st = st and ts = ts])
     (use assms in \<open>auto simp: writable_iff\<close>)

lemma writable_startOrderTracking:
  assumes "writable s"
  shows "writable (state_of (startOrderTracking orderId s))"
  by (rule startOrderTracking_cases [where s = s and orderId = orderId])
     (use assms in \<open>auto simp: writable_iff\<close>)

lemma writable_fire: "writable s \<Longrightarrow> writable (fire t s)"
proof (rule fire_keeps [of writable])
  show "writable (showOrderNotification st orderId s)" if "writable s" for orderId st s
    using that by (simp add: writable_iff showOrderNotification_def setTimeout_def Let_def)
  show "writable (s\<lparr>pending := remove1 x (pending s)\<rparr>)" if "writable s" for s x
    using that by (simp add: writable_iff)
  show "writable (s\<lparr>clock := c\<rparr>)" if "writable s" for s c
    using that by (simp add: writable_iff)
  show "writable (s\<lparr>closed := c\<rparr>)" if "writable s" for s c
    using that by (simp add: writable_iff)
qed (simp_all add: writable_saveOrderStatus)

lemma writable_advance_to: "writable s \<Longrightarrow> writable (advance_to t s)"
proof (rule advance_to_keeps [of writable])
  show "writable (s\<lparr>clock := c\<rparr>)" if "writable s" for s c
    using that by (simp add: writable_iff)
qed (simp_all add: writable_fire)

lemma tracked_only_fire: "tracked_only s \<Longrightarrow> tracked_only (fire t s)"
proof (rule fire_keeps [of tracked_only])
  show "tracked_only (s\<lparr>clock := c\<rparr>)" if "tracked_only s" for s c
    using that by (simp add: tracked_only_def)
  show "tracked_only (s\<lparr>closed := c\<rparr>)" if "tracked_only s" for s c
    using that by (simp add: tracked_only_def)
qed (simp_all add: tracked_only_saveOrderStatus tracked_only_showOrderNotification
       tracked_only_remove1)

lemma tracked_only_advance_to: "tracked_only s \<Longrightarrow> tracked_only (advance_to t s)"
proof (rule advance_to_keeps [of tracked_only])
  show "tracked_only (s\<lparr>clock := c\<rparr>)" if "tracked_only s" for s c
    using that by (simp add: tracked_only_def)
qed (simp_all add: tracked_only_fire)

text \<open>A whole session from a state whose pending transition timers are all remembered.\<close>

lemma session:
  assumes "tracked_only s" and "read_orders (storage s) = Inr os" and "\<not> storage_full s"
    and "clock s + 45000 \<le> t"
  shows "\<exists>s'. startOrderTracking orderId s = Done s' \<and>
     map (\<lambda>tm. (due tm, action tm)) (filter is_transition (pending s')) =
       [(clock s + 10000, Transition orderId PREPARING),
        (clock s + 20000, Transition orderId READY),
        (clock s + 30000, Transition orderId ON_WAY),
        (clock s + 45000, Transition orderId DELIVERED)] \<and>
     read_orders (storage (advance_to t s')) = Inr (upsert
          \<lparr>order_id = orderId, status = DELIVERED, timestamp = clock s + 45000,
            lastUpdate = clock s + 45000\<rparr> os) \<and>
     written (advance_to t s') = written s @
         [\<lparr>order_id = orderId, status = PLACED, timestamp = clock s, lastUpdate = clock s\<rparr>,
          \<lparr>order_id = orderId, status = PREPARING, timestamp = clock s + 10000,
            lastUpdate = clock s + 10000\<rparr>,
          \<lparr>order_id = orderId, status = READY, timestamp = clock s + 20000,
            lastUpdate = clock s + 20000\<rparr>,
          \<lparr>order_id = orderId, status = ON_WAY, timestamp = clock s + 30000,
            lastUpdate = clock s + 30000\<rparr>,
          \<lparr>order_id = orderId, status = DELIVERED, timestamp = clock s + 45000,
            lastUpdate = clock s + 45000\<rparr>] \<and>
     shown (advance_to t s') =
        (if granted s
         then shown s @ [(PLACED, orderId), (PREPARING, orderId), (READY, orderId),
                         (ON_WAY, orderId), (DELIVERED, orderId)]
         else shown s) \<and>
     filter is_transition (pending (advance_to t s')) = []"
proof -
  define h where "h = next_handle s + (if granted s then 1 else 0)"
  let ?r0 = "\<lparr>order_id = orderId, status = PLACED, timestamp = clock s, lastUpdate = clock s\<rparr>"
  let ?T = "[\<lparr>handle = h, due = clock s + 10000, action = Transition orderId PREPARING\<rparr>,
             \<lparr>handle = h + 1, due = clock s + 20000, action = Transition orderId READY\<rparr>,
             \<lparr>handle = h + 2, due = clock s + 30000, action = Transition orderId ON_WAY\<rparr>,
             \<lparr>handle = h + 3, due = clock s + 45000, action = Transition orderId DELIVERED\<rparr>]"
  note d = startOrderTracking_Done [OF assms(2,3), of orderId, folded h_def]
  obtain s' where s': "startOrderTracking orderId s = Done s'"
    using d by blast
  have fields: "read_orders (storage s') = Inr (upsert ?r0 os)" "\<not> storage_full s'"
    "clock s' = clock s" "granted s' = granted s"
    "written s' = written s @ [?r0]"
    "shown s' = (if granted s then shown s @ [(PLACED, orderId)] else shown s)"
    using s' assms(3) d by auto
  have "pending s' = filter (\<lambda>t. handle t \<notin> set (orderStatusTimeouts s)) (pending s) @
          (if granted s
           then [\<lparr>handle = next_handle s, due = clock s + 5000,
                    action = CloseNotification (length (shown s))\<rparr>]
           else []) @ ?T"
    using s' d by auto
  then have T: "filter is_transition (pending s') = ?T"
    using tracked_only_filter [OF assms(1)] by (simp add: is_transition_def)
  have o: "sorted_wrt (\<lambda>a b. due a < due b) (filter is_transition (pending s'))"
    by (simp add: T)
  have c: "\<forall>tm\<in>set (filter is_transition (pending s')). clock s' \<le> due tm \<and> due tm \<le> t"
    using assms(4) by (simp add: T fields)
  note a = advance_to_transitions [OF fields(1,2) o c, unfolded T]
  show ?thesis
    by (rule exI [of _ s']) (simp add: s' a T fields upsert_upsert)
qed

section \<open>Persisting a status\<close>

text \<open>
  C7. A call \<open>saveOrderStatus orderId st ts\<close> on a readable, writable storage returns
  and leaves a collection in which the new record stands in place of the first record
  with that id (the index found by the linear scan: the id matches there and at no
  smaller index), or at the end when no record has that id. The new record carries
  the caller's \<open>ts\<close> unchanged as \<open>timestamp\<close> and the clock at the time of the write
  as \<open>lastUpdate\<close>, whatever \<open>ts\<close> is.
\<close>

theorem saveOrderStatus_replaces_or_appends:
  assumes "read_orders (storage s) = Inr os" and "\<not> storage_full s"
  shows "\<exists>s' os'. saveOrderStatus orderId st ts s = Done s' \<and>
           read_orders (storage s') = Inr os' \<and>
           (let r = \<lparr>order_id = orderId, status = st, timestamp = ts, lastUpdate = clock s\<rparr>
            in if \<exists>x\<in>set os. order_id x = orderId
               then \<exists>i<length os. order_id (os ! i) = orderId \<and>
                      (\<forall>j<i. order_id (os ! j) \<noteq> orderId) \<and> os' = os[i := r]
               else os' = os @ [r])"
proof -
  let ?r = "\<lparr>order_id = orderId, status = st, timestamp = ts, lastUpdate = clock s\<rparr>"
  have "saveOrderStatus orderId st ts s =
          Done (s\<lparr>storage := Some (OrdersJson (upsert ?r os)), written := written s @ [?r]\<rparr>)"
    using assms by (rule saveOrderStatus_Done)
  moreover have "(\<exists>x\<in>set os. order_id x = orderId) \<Longrightarrow>
       \<exists>i<length os. order_id (os ! i) = orderId \<and>
          (\<forall>j<i. order_id (os ! j) \<noteq> orderId) \<and> upsert ?r os = os[i := ?r]"
    using upsert_replace [of os ?r] by simp
  moreover have "\<not> (\<exists>x\<in>set os. order_id x = orderId) \<Longrightarrow> upsert ?r os = os @ [?r]"
    using upsert_append [of os ?r] by simp
  ultimately show ?thesis by (simp add: Let_def)
qed

theorem saveOrderStatus_replaces_or_appends_witness:
  "read_orders (storage (loaded_page (Some (OrdersJson
        [\<lparr>order_id = ''a'', status = PLACED, timestamp = 5, lastUpdate = 5\<rparr>,
         \<lparr>order_id = ''b'', status = READY, timestamp = 7, lastUpdate = 8\<rparr>])) False True 100)) =
     Inr [\<lparr>order_id = ''a'', status = PLACED, timestamp = 5, lastUpdate = 5\<rparr>,
          \<lparr>order_id = ''b'', status = READY, timestamp = 7, lastUpdate = 8\<rparr>] \<and>
   \<not> storage_full (loaded_page (Some (OrdersJson
        [\<lparr>order_id = ''a'', status = PLACED, timestamp = 5, lastUpdate = 5\<rparr>,
         \<lparr>order_id = ''b'', status = READY, timestamp = 7, lastUpdate = 8\<rparr>])) False True 100) \<and>
   (\<exists>s'. saveOrderStatus ''b'' ON_WAY 90 (loaded_page (Some (OrdersJson
        [\<lparr>order_id = ''a'', status = PLACED, timestamp = 5, lastUpdate = 5\<rparr>,
         \<lparr>order_id = ''b'', status = READY, timestamp = 7, lastUpdate = 8\<rparr>])) False True 100) =
           Done s' \<and>
         read_orders (storage s') =
           Inr [\<lparr>order_id = ''a'', status = PLACED, timestamp = 5, lastUpdate = 5\<rparr>,
                \<lparr>order_id = ''b'', status = ON_WAY, timestamp = 90, lastUpdate = 100\<rparr>])"
proof -
  let ?os = "[\<lparr>order_id = ''a'', status = PLACED, timestamp = 5, lastUpdate = 5\<rparr>,
              \<lparr>order_id = ''b'', status = READY, timestamp = 7, lastUpdate = 8\<rparr>]"
  let ?s = "loaded_page (Some (OrdersJson ?os)) False True 100"
  have h1: "read_orders (storage ?s) = Inr ?os" and h2: "\<not> storage_full ?s"
    by (simp_all add: loaded_page_def)
  have c: "clock ?s = 100" by (simp add: loaded_page_def)
  obtain s' os' i where "saveOrderStatus ''b'' ON_WAY 90 ?s = Done s'"
    and "read_orders (storage s') = Inr os'" and "i < 2" and "order_id (?os ! i) = ''b''"
    and "os' = ?os[i := \<lparr>order_id = ''b'', status = ON_WAY, timestamp = 90, lastUpdate = 100\<rparr>]"
    using saveOrderStatus_replaces_or_appends [OF h1 h2, of "''b''" ON_WAY 90] c
    by (auto simp: Let_def)
  moreover from this have "i = 1" by (cases i) auto
  ultimately show ?thesis using h1 h2 by simp
qed

text \<open>
  C9. Whatever the outcome of \<open>saveOrderStatus orderId st ts\<close> on a readable storage,
  the collection it leaves is at least as long as before, every record of the old
  collection whose id differs from \<open>orderId\<close> is still at its index, unchanged, the ids
  at the old indices are the old ids in the old order (a replaced record keeps its
  position, a new one comes after all old ones), and the records with another id
  form the same sequence as before.
\<close>

theorem saveOrderStatus_frame:
  assumes "read_orders (storage s) = Inr os"
  shows "\<exists>os'. read_orders (storage (state_of (saveOrderStatus orderId st ts s))) = Inr os' \<and>
           length os \<le> length os' \<and>
           (\<forall>j<length os. order_id (os ! j) \<noteq> orderId \<longrightarrow> os' ! j = os ! j) \<and>
           map order_id (take (length os) os') = map order_id os \<and>
           filter (\<lambda>x. order_id x \<noteq> orderId) os' = filter (\<lambda>x. order_id x \<noteq> orderId) os"
proof (cases "storage_full s")
  case True
  with assms have "saveOrderStatus orderId st ts s = Thrown QuotaExceededError s"
    by (rule saveOrderStatus_full)
  with assms show ?thesis by simp
next
  case False
  let ?r = "\<lparr>order_id = orderId, status = st, timestamp = ts, lastUpdate = clock s\<rparr>"
  have "saveOrderStatus orderId st ts s =
          Done (s\<lparr>storage := Some (OrdersJson (upsert ?r os)), written := written s @ [?r]\<rparr>)"
    using assms False by (rule saveOrderStatus_Done)
  then show ?thesis
    using length_upsert [of os ?r] nth_upsert_other [of _ os ?r] take_upsert_ids [of os ?r]
      filter_upsert_other [of ?r os]
    by simp
qed

theorem saveOrderStatus_frame_witness:
  "read_orders (storage (loaded_page (Some (OrdersJson
        [\<lparr>order_id = ''a'', status = PLACED, timestamp = 5, lastUpdate = 5\<rparr>,
         \<lparr>order_id = ''b'', status = READY, timestamp = 7, lastUpdate = 8\<rparr>])) False True 100)) =
     Inr [\<lparr>order_id = ''a'', status = PLACED, timestamp = 5, lastUpdate = 5\<rparr>,
          \<lparr>order_id = ''b'', status = READY, timestamp = 7, lastUpdate = 8\<rparr>] \<and>
   (\<exists>os'. read_orders (storage (state_of (saveOrderStatus ''c'' PLACED 100
        (loaded_page (Some (OrdersJson
          [\<lparr>order_id = ''a'', status = PLACED, timestamp = 5, lastUpdate = 5\<rparr>,
           \<lparr>order_id = ''b'', status = READY, timestamp = 7, lastUpdate = 8\<rparr>])) False True 100)))) =
        Inr os' \<and> 2 \<le> length os' \<and>
      os' ! 0 = \<lparr>order_id = ''a'', status = PLACED, timestamp = 5, lastUpdate = 5\<rparr> \<and>
      os' ! 1 = \<lparr>order_id = ''b'', status = READY, timestamp = 7, lastUpdate = 8\<rparr>)"
proof -
  let ?os = "[\<lparr>order_id = ''a'', status = PLACED, timestamp = 5, lastUpdate = 5\<rparr>,
              \<lparr>order_id = ''b'', status = READY, timestamp = 7, lastUpdate = 8\<rparr>]"
  let ?s = "loaded_page (Some (OrdersJson ?os)) False True 100"
  have h: "read_orders (storage ?s) = Inr ?os"
    by (simp add: loaded_page_def)
  obtain os' where "read_orders (storage (state_of (saveOrderStatus ''c'' PLACED 100 ?s))) = Inr os'"
    and "length ?os \<le> length os'"
    and "\<forall>j<length ?os. order_id (?os ! j) \<noteq> ''c'' \<longrightarrow> os' ! j = ?os ! j"
    using saveOrderStatus_frame [OF h, of "''c''" PLACED 100] by blast
  moreover from this have "os' ! 0 = ?os ! 0" and "os' ! 1 = ?os ! 1" by simp_all
  ultimately show ?thesis using h by simp
qed

section \<open>Storage that is absent or unreadable\<close>

text \<open>
  C10. When the key is absent from local storage, every read takes the empty
  collection instead of failing: \<open>getOrderStatus\<close> finds no record for any id,
  \<open>checkExistingOrders\<close> returns with the state exactly as it was (no tracking
  started, nothing written, nothing shown), and \<open>saveOrderStatus\<close>, when the write is
  accepted, stores a collection of exactly the one new record.
\<close>

theorem absent_key_is_empty_collection:
  assumes "storage s = None"
  shows "getOrderStatus orderId s = Inr None \<and>
         checkExistingOrders s = Done s \<and>
         (\<not> storage_full s \<longrightarrow>
            saveOrderStatus orderId st ts s =
              Done (s\<lparr>storage := Some (OrdersJson
                        [\<lparr>order_id = orderId, status = st, timestamp = ts, lastUpdate = clock s\<rparr>]),
                      written := written s @
                        [\<lparr>order_id = orderId, status = st, timestamp = ts, lastUpdate = clock s\<rparr>]\<rparr>))"
  using assms
  by (simp add: getOrderStatus_def checkExistingOrders_def saveOrderStatus_def Let_def)

theorem absent_key_is_empty_collection_witness:
  "storage (loaded_page None False True 1000) = None \<and>
   getOrderStatus ''o1'' (loaded_page None False True 1000) = Inr None \<and>
   checkExistingOrders (loaded_page None False True 1000) = Done (loaded_page None False True 1000) \<and>
   \<not> storage_full (loaded_page None False True 1000) \<and>
   saveOrderStatus ''o1'' PLACED 1000 (loaded_page None False True 1000) =
     Done (loaded_page (Some (OrdersJson
            [\<lparr>order_id = ''o1'', status = PLACED, timestamp = 1000, lastUpdate = 1000\<rparr>]))
            False True 1000
          \<lparr>written := [\<lparr>order_id = ''o1'', status = PLACED, timestamp = 1000, lastUpdate = 1000\<rparr>]\<rparr>)"
proof -
  have h: "storage (loaded_page None False True 1000) = None"
    by (simp add: loaded_page_def)
  show ?thesis
    using h absent_key_is_empty_collection [OF h, of "''o1''" PLACED 1000]
    by (simp add: loaded_page_def)
qed

text \<open>
  C8. When the stored text is not JSON, \<open>getOrderStatus\<close>, \<open>saveOrderStatus\<close>,
  \<open>checkExistingOrders\<close> and \<open>startOrderTracking\<close> all throw the parse error to their
  caller. The state they leave shows that nothing is retried and nothing is half
  written: the storage cell, the log of writes and the notifications are as before,
  and no timer is added (\<open>startOrderTracking\<close> has by then set \<open>currentOrderId\<close> and
  cleared the timers it remembered). A write that the storage refuses is thrown
  from \<open>saveOrderStatus\<close> in the same way, with the state unchanged.
\<close>

theorem malformed_storage_throws:
  "(storage s = Some BadJson \<longrightarrow>
      getOrderStatus orderId s = Inl SyntaxError \<and>
      saveOrderStatus orderId st ts s = Thrown SyntaxError s \<and>
      checkExistingOrders s = Thrown SyntaxError s \<and>
      startOrderTracking orderId s =
        Thrown SyntaxError
          (s\<lparr>currentOrderId := Some orderId, orderStatusTimeouts := [],
             pending := filter (\<lambda>t. handle t \<notin> set (orderStatusTimeouts s)) (pending s)\<rparr>)) \<and>
   (read_orders (storage s') = Inr os \<and> storage_full s' \<longrightarrow>
      saveOrderStatus orderId st ts s' = Thrown QuotaExceededError s')"
  by (simp add: getOrderStatus_def checkExistingOrders_def saveOrderStatus_unreadable
        startOrderTracking_Thrown saveOrderStatus_full)

theorem malformed_storage_throws_witness:
  "storage (loaded_page (Some BadJson) False True 1000) = Some BadJson \<and>
   getOrderStatus ''o1'' (loaded_page (Some BadJson) False True 1000) = Inl SyntaxError \<and>
   saveOrderStatus ''o1'' READY 7 (loaded_page (Some BadJson) False True 1000) =
     Thrown SyntaxError (loaded_page (Some BadJson) False True 1000) \<and>
   checkExistingOrders (loaded_page (Some BadJson) False True 1000) =
     Thrown SyntaxError (loaded_page (Some BadJson) False True 1000) \<and>
   startOrderTracking ''o1'' (loaded_page (Some BadJson) False True 1000) =
     Thrown SyntaxError (loaded_page (Some BadJson) False True 1000 \<lparr>currentOrderId := Some ''o1''\<rparr>) \<and>
   read_orders (storage (loaded_page None True True 1000)) = Inr [] \<and>
   storage_full (loaded_page None True True 1000) \<and>
   saveOrderStatus ''o1'' READY 7 (loaded_page None True True 1000) =
     Thrown QuotaExceededError (loaded_page None True True 1000)"
  using malformed_storage_throws [of "loaded_page (Some BadJson) False True 1000" "''o1''" READY 7
          "loaded_page None True True 1000" "[]"]
  by (simp add: loaded_page_def)

section \<open>Starting a session\<close>

text \<open>
  C5. For every order id (the empty string included), on a readable and writable
  storage, \<open>startOrderTracking orderId\<close> returns, and \<open>getOrderStatus orderId\<close> right
  after it finds the record with status \<open>PLACED\<close> whose \<open>timestamp\<close> is the clock
  value at which tracking started.
\<close>

theorem startOrderTracking_then_getOrderStatus:
  assumes "read_orders (storage s) = Inr os" and "\<not> storage_full s"
  shows "\<exists>s'. startOrderTracking orderId s = Done s' \<and>
           getOrderStatus orderId s' =
             Inr (Some \<lparr>order_id = orderId, status = PLACED, timestamp = clock s,
                        lastUpdate = clock s\<rparr>)"
  using find_upsert [of "\<lparr>order_id = orderId, status = PLACED, timestamp = clock s,
                        lastUpdate = clock s\<rparr>" os]
  by (simp add: startOrderTracking_Done [OF assms] getOrderStatus_def)

theorem startOrderTracking_then_getOrderStatus_witness:
  "read_orders (storage (loaded_page None False True 1000)) = Inr [] \<and>
   \<not> storage_full (loaded_page None False True 1000) \<and>
   (\<exists>s'. startOrderTracking ''o1'' (loaded_page None False True 1000) = Done s' \<and>
      getOrderStatus ''o1'' s' =
        Inr (Some \<lparr>order_id = ''o1'', status = PLACED, timestamp = 1000, lastUpdate = 1000\<rparr>))"
proof -
  have h1: "read_orders (storage (loaded_page None False True 1000)) = Inr []"
    and h2: "\<not> storage_full (loaded_page None False True 1000)"
    by (simp_all add: loaded_page_def)
  have "clock (loaded_page None False True 1000) = 1000"
    by (simp add: loaded_page_def)
  with startOrderTracking_then_getOrderStatus [OF h1 h2, of "''o1''"] h1 h2
  show ?thesis by simp
qed

section \<open>A session run to its end, and a session cut short\<close>

text \<open>
  C4. From a state whose pending transition timers are all remembered by the module
  (every state reached from a loaded page is one), with a readable and writable
  storage: \<open>startOrderTracking orderId\<close> returns, and when 45 seconds or more have then
  passed with no call of the module in between (the timers due run, those that close
  notifications among them), \<open>getOrderStatus orderId\<close> finds the record with status
  \<open>DELIVERED\<close>, exactly five records have been written since the start, all for
  \<open>orderId\<close>, in the order of the five statuses, and their \<open>timestamp\<close>s are the start
  time plus 0, 10000, 20000, 30000 and 45000 ms.
\<close>

theorem full_ladder_writes_five:
  assumes "tracked_only s" and "read_orders (storage s) = Inr os" and "\<not> storage_full s"
    and "clock s + 45000 \<le> t"
  shows "\<exists>s'. startOrderTracking orderId s = Done s' \<and>
     getOrderStatus orderId (advance_to t s') =
       Inr (Some \<lparr>order_id = orderId, status = DELIVERED, timestamp = clock s + 45000,
                  lastUpdate = clock s + 45000\<rparr>) \<and>
     (\<exists>ws. written (advance_to t s') = written s @ ws \<and>
        length ws = 5 \<and>
        map order_id ws = [orderId, orderId, orderId, orderId, orderId] \<and>
        map status ws = [PLACED, PREPARING, READY, ON_WAY, DELIVERED] \<and>
        map timestamp ws = [clock s, clock s + 10000, clock s + 20000, clock s + 30000,
                            clock s + 45000])"
proof -
  let ?r = "\<lparr>order_id = orderId, status = DELIVERED, timestamp = clock s + 45000,
             lastUpdate = clock s + 45000\<rparr>"
  obtain s' where s': "startOrderTracking orderId s = Done s'"
    and st: "read_orders (storage (advance_to t s')) = Inr (upsert ?r os)"
    and w: "written (advance_to t s') = written s @
         [\<lparr>order_id = orderId, status = PLACED, timestamp = clock s, lastUpdate = clock s\<rparr>,
          \<lparr>order_id = orderId, status = PREPARING, timestamp = clock s + 10000,
            lastUpdate = clock s + 10000\<rparr>,
          \<lparr>order_id = orderId, status = READY, timestamp = clock s + 20000,
            lastUpdate = clock s + 20000\<rparr>,
          \<lparr>order_id = orderId, status = ON_WAY, timestamp = clock s + 30000,
            lastUpdate = clock s + 30000\<rparr>,
          \<lparr>order_id = orderId, status = DELIVERED, timestamp = clock s + 45000,
            lastUpdate = clock s + 45000\<rparr>]"
    using session [OF assms, of orderId] by blast
  have "getOrderStatus orderId (advance_to t s') = Inr (Some ?r)"
    using find_upsert [of ?r os] by (simp add: getOrderStatus_def st)
  with s' w show ?thesis by simp
qed

theorem full_ladder_writes_five_witness:
  "tracked_only (loaded_page None False True 1000) \<and>
   read_orders (storage (loaded_page None False True 1000)) = Inr [] \<and>
   \<not> storage_full (loaded_page None False True 1000) \<and>
   clock (loaded_page None False True 1000) + 45000 \<le> 46000 \<and>
   (\<exists>s'. startOrderTracking ''o1'' (loaded_page None False True 1000) = Done s' \<and>
      getOrderStatus ''o1'' (advance_to 46000 s') =
        Inr (Some \<lparr>order_id = ''o1'', status = DELIVERED, timestamp = 46000,
                   lastUpdate = 46000\<rparr>) \<and>
      (\<exists>ws. written (advance_to 46000 s') = ws \<and> length ws = 5 \<and>
         map status ws = [PLACED, PREPARING, READY, ON_WAY, DELIVERED] \<and>
         map timestamp ws = [1000, 11000, 21000, 31000, 46000]))"
proof -
  let ?s = "loaded_page None False True 1000"
  have h1: "tracked_only ?s" by (rule tracked_only_loaded_page)
  have h2: "read_orders (storage ?s) = Inr []" and h3: "\<not> storage_full ?s"
    and h4: "clock ?s + 45000 \<le> 46000"
    by (simp_all add: loaded_page_def)
  have "clock ?s = 1000" and "written ?s = []" by (simp_all add: loaded_page_def)
  with full_ladder_writes_five [OF h1 h2 h3 h4, of "''o1''"] h1 h2 h3 h4
  show ?thesis by auto
qed

text \<open>
  C6. Let tracking start for \<open>id1\<close>, let any amount of time pass, and let tracking
  then start for a different \<open>id2\<close>. The second call returns, and the transition timers
  pending after it are the four of \<open>id2\<close>, due 10, 20, 30 and 45 seconds after the
  second start: those of \<open>id1\<close> that had not run are gone. (Timers that close a
  notification are not cancelled; they write nothing.) Once 45 seconds or more have
  passed since the second start, so that both sessions' 45 seconds are over, the only
  writes and notifications since the second start are the five of \<open>id2\<close>, no
  transition timer is pending, and \<open>getOrderStatus id1\<close> finds what it found at the
  moment of the second start.
\<close>

theorem second_session_cancels_first:
  assumes "tracked_only s" and "read_orders (storage s) = Inr os" and "\<not> storage_full s"
    and "id1 \<noteq> id2"
    and "s2 = advance_to t1 (state_of (startOrderTracking id1 s))"
    and "clock s2 + 45000 \<le> t2"
  shows "\<exists>s3. startOrderTracking id2 s2 = Done s3 \<and>
     map (\<lambda>tm. (due tm, action tm)) (filter is_transition (pending s3)) =
       [(clock s2 + 10000, Transition id2 PREPARING),
        (clock s2 + 20000, Transition id2 READY),
        (clock s2 + 30000, Transition id2 ON_WAY),
        (clock s2 + 45000, Transition id2 DELIVERED)] \<and>
     getOrderStatus id1 (advance_to t2 s3) = getOrderStatus id1 s2 \<and>
     written (advance_to t2 s3) = written s2 @
       [\<lparr>order_id = id2, status = PLACED, timestamp = clock s2, lastUpdate = clock s2\<rparr>,
        \<lparr>order_id = id2, status = PREPARING, timestamp = clock s2 + 10000,
          lastUpdate = clock s2 + 10000\<rparr>,
        \<lparr>order_id = id2, status = READY, timestamp = clock s2 + 20000,
          lastUpdate = clock s2 + 20000\<rparr>,
        \<lparr>order_id = id2, status = ON_WAY, timestamp = clock s2 + 30000,
          lastUpdate = clock s2 + 30000\<rparr>,
        \<lparr>order_id = id2, status = DELIVERED, timestamp = clock s2 + 45000,
          lastUpdate = clock s2 + 45000\<rparr>] \<and>
     shown (advance_to t2 s3) =
       (if granted s2
        then shown s2 @ [(PLACED, id2), (PREPARING, id2), (READY, id2), (ON_WAY, id2),
                         (DELIVERED, id2)]
        else shown s2) \<and>
     filter is_transition (pending (advance_to t2 s3)) = []"
proof -
  have "writable s" using assms(2,3) by (simp add: writable_iff)
  then have "writable s2"
    unfolding assms(5) by (intro writable_advance_to writable_startOrderTracking)
  then obtain os2 where r2: "read_orders (storage s2) = Inr os2" and f2: "\<not> storage_full s2"
    by (auto simp: writable_iff)
  have t2: "tracked_only s2"
    unfolding assms(5) using assms(1)
    by (intro tracked_only_advance_to tracked_only_startOrderTracking)
  let ?r = "\<lparr>order_id = id2, status = DELIVERED, timestamp = clock s2 + 45000,
             lastUpdate = clock s2 + 45000\<rparr>"
  obtain s3 where s3: "startOrderTracking id2 s2 = Done s3"
    and p3: "map (\<lambda>tm. (due tm, action tm)) (filter is_transition (pending s3)) =
       [(clock s2 + 10000, Transition id2 PREPARING),
        (clock s2 + 20000, Transition id2 READY),
        (clock s2 + 30000, Transition id2 ON_WAY),
        (clock s2 + 45000, Transition id2 DELIVERED)]"
    and st: "read_orders (storage (advance_to t2 s3)) = Inr (upsert ?r os2)"
    and rest: "written (advance_to t2 s3) = written s2 @
       [\<lparr>order_id = id2, status = PLACED, timestamp = clock s2, lastUpdate = clock s2\<rparr>,
        \<lparr>order_id = id2, status = PREPARING, timestamp = clock s2 + 10000,
          lastUpdate = clock s2 + 10000\<rparr>,
        \<lparr>order_id = id2, status = READY, timestamp = clock s2 + 20000,
          lastUpdate = clock s2 + 20000\<rparr>,
        \<lparr>order_id = id2, status = ON_WAY, timestamp = clock s2 + 30000,
          lastUpdate = clock s2 + 30000\<rparr>,
        \<lparr>order_id = id2, status = DELIVERED, timestamp = clock s2 + 45000,
          lastUpdate = clock s2 + 45000\<rparr>]"
      "shown (advance_to t2 s3) =
       (if granted s2
        then shown s2 @ [(PLACED, id2), (PREPARING, id2), (READY, id2), (ON_WAY, id2),
                         (DELIVERED, id2)]
        else shown s2)"
      "filter is_transition (pending (advance_to t2 s3)) = []"
    using session [OF t2 r2 f2 assms(6), of id2]
    by (elim exE conjE) (rule that, assumption+)
  have "getOrderStatus id1 (advance_to t2 s3) = getOrderStatus id1 s2"
    using find_upsert_other [of id1 ?r os2] assms(4)
    by (simp add: getOrderStatus_def st r2)
  with s3 p3 rest show ?thesis by simp
qed

theorem second_session_cancels_first_witness:
  "tracked_only (loaded_page None False True 1000) \<and>
   read_orders (storage (loaded_page None False True 1000)) = Inr [] \<and>
   \<not> storage_full (loaded_page None False True 1000) \<and>
   ''a'' \<noteq> ''b'' \<and>
   clock (advance_to 13000 (state_of (startOrderTracking ''a''
            (loaded_page None False True 1000)))) + 45000 \<le> 58000 \<and>
   (\<exists>s3. startOrderTracking ''b'' (advance_to 13000 (state_of (startOrderTracking ''a''
            (loaded_page None False True 1000)))) = Done s3 \<and>
      map (\<lambda>tm. (due tm, action tm)) (filter is_transition (pending s3)) =
        [(23000, Transition ''b'' PREPARING), (33000, Transition ''b'' READY),
         (43000, Transition ''b'' ON_WAY), (58000, Transition ''b'' DELIVERED)] \<and>
      getOrderStatus ''a'' (advance_to 58000 s3) =
        Inr (Some \<lparr>order_id = ''a'', status = PREPARING, timestamp = 11000,
                   lastUpdate = 11000\<rparr>) \<and>
      map order_id (written (advance_to 58000 s3)) =
        [''a'', ''a'', ''b'', ''b'', ''b'', ''b'', ''b''] \<and>
      filter is_transition (pending (advance_to 58000 s3)) = [])"
proof -
  let ?s = "loaded_page None False True 1000"
  let ?s2 = "advance_to 13000 (state_of (startOrderTracking ''a'' ?s))"
  have h1: "tracked_only ?s" by (rule tracked_only_loaded_page)
  have h2: "read_orders (storage ?s) = Inr []" and h3: "\<not> storage_full ?s"
    by (simp_all add: loaded_page_def)
  have h4: "''a'' \<noteq> ''b''" by simp
  have s2: "?s2 =
     \<lparr>storage = Some (OrdersJson
        [\<lparr>order_id = ''a'', status = PREPARING, timestamp = 11000, lastUpdate = 11000\<rparr>]),
      storage_full = False, granted = True, clock = 13000,
      pending =
        [\<lparr>handle = 3, due = 21000, action = Transition ''a'' READY\<rparr>,
         \<lparr>handle = 4, due = 31000, action = Transition ''a'' ON_WAY\<rparr>,
         \<lparr>handle = 5, due = 46000, action = Transition ''a'' DELIVERED\<rparr>,
         \<lparr>handle = 6, due = 16000, action = CloseNotification 1\<rparr>],
      next_handle = 7, currentOrderId = Some ''a'', orderStatusTimeouts = [2, 3, 4, 5],
      written =
        [\<lparr>order_id = ''a'', status = PLACED, timestamp = 1000, lastUpdate = 1000\<rparr>,
         \<lparr>order_id = ''a'', status = PREPARING, timestamp = 11000, lastUpdate = 11000\<rparr>],
      shown = [(PLACED, ''a''), (PREPARING, ''a'')], closed = [0]\<rparr>"
    by (simp add: startOrderTracking_Done [OF h2 h3])
       (simp add: loaded_page_def advance_to.simps fire_def saveOrderStatus_upsert
          showOrderNotification_def setTimeout_def upsert_def)
  have h6: "clock ?s2 + 45000 \<le> 58000" by (simp add: s2)
  obtain s3 where "startOrderTracking ''b'' ?s2 = Done s3"
    and "map (\<lambda>tm. (due tm, action tm)) (filter is_transition (pending s3)) =
       [(clock ?s2 + 10000, Transition ''b'' PREPARING),
        (clock ?s2 + 20000, Transition ''b'' READY),
        (clock ?s2 + 30000, Transition ''b'' ON_WAY),
        (clock ?s2 + 45000, Transition ''b'' DELIVERED)]"
    and "getOrderStatus ''a'' (advance_to 58000 s3) = getOrderStatus ''a'' ?s2"
    and "written (advance_to 58000 s3) = written ?s2 @
       [\<lparr>order_id = ''b'', status = PLACED, timestamp = clock ?s2, lastUpdate = clock ?s2\<rparr>,
        \<lparr>order_id = ''b'', status = PREPARING, timestamp = clock ?s2 + 10000,
          lastUpdate = clock ?s2 + 10000\<rparr>,
        \<lparr>order_id = ''b'', status = READY, timestamp = clock ?s2 + 20000,
          lastUpdate = clock ?s2 + 20000\<rparr>,
        \<lparr>order_id = ''b'', status = ON_WAY, timestamp = clock ?s2 + 30000,
          lastUpdate = clock ?s2 + 30000\<rparr>,
        \<lparr>order_id = ''b'', status = DELIVERED, timestamp = clock ?s2 + 45000,
          lastUpdate = clock ?s2 + 45000\<rparr>]"
    and "filter is_transition (pending (advance_to 58000 s3)) = []"
    using second_session_cancels_first [OF h1 h2 h3 h4 refl h6]
    by (elim exE conjE) (rule that, assumption+)
  moreover have "getOrderStatus ''a'' ?s2 =
      Inr (Some \<lparr>order_id = ''a'', status = PREPARING, timestamp = 11000, lastUpdate = 11000\<rparr>)"
    by (simp add: s2 getOrderStatus_def)
  moreover have "map order_id (written ?s2) = [''a'', ''a'']" by (simp add: s2)
  moreover have "clock ?s2 = 13000" by (simp add: s2)
  ultimately show ?thesis using h1 h2 h3 h4 h6 by simp
qed

section \<open>The ids of the collection\<close>

text \<open>
  C3. If the stored collection has pairwise distinct ids, then after any sequence of
  operations (calls of \<open>startOrderTracking\<close>, \<open>saveOrderStatus\<close>, \<open>getOrderStatus\<close> and
  \<open>checkExistingOrders\<close> with any arguments, and time passing with the timers due
  running in between) the storage still holds a collection, and its ids are pairwise
  distinct.
\<close>

theorem ids_stay_distinct:
  assumes "read_orders (storage s) = Inr os" and "distinct (map order_id os)"
  shows "\<exists>os'. read_orders (storage (run ops s)) = Inr os' \<and> distinct (map order_id os')"
proof -
  have "distinct_ids s" using assms by (simp add: distinct_ids_def)
  then have "distinct_ids (run ops s)" by (rule distinct_ids_run)
  then show ?thesis by (simp add: distinct_ids_def split: sum.splits)
qed

theorem ids_stay_distinct_witness:
  "read_orders (storage (loaded_page (Some (OrdersJson
      [\<lparr>order_id = ''a'', status = PLACED, timestamp = 1000, lastUpdate = 1000\<rparr>])) False True 3000)) =
     Inr [\<lparr>order_id = ''a'', status = PLACED, timestamp = 1000, lastUpdate = 1000\<rparr>] \<and>
   distinct (map order_id
     [\<lparr>order_id = ''a'', status = PLACED, timestamp = 1000, lastUpdate = 1000\<rparr>]) \<and>
   (\<exists>os'. read_orders (storage (run
        [ResumeOnLoad, TimePasses 12000, StartTracking ''b'', PersistStatus ''a'' READY 5,
         GetStatus ''a'', TimePasses 50000]
        (loaded_page (Some (OrdersJson
           [\<lparr>order_id = ''a'', status = PLACED, timestamp = 1000, lastUpdate = 1000\<rparr>]))
           False True 3000))) = Inr os' \<and>
      distinct (map order_id os'))"
proof -
  let ?os = "[\<lparr>order_id = ''a'', status = PLACED, timestamp = 1000, lastUpdate = 1000\<rparr>]"
  have h1: "read_orders (storage (loaded_page (Some (OrdersJson ?os)) False True 3000)) = Inr ?os"
    by (simp add: loaded_page_def)
  have h2: "distinct (map order_id ?os)" by simp
  show ?thesis
    using h1 h2 ids_stay_distinct [OF h1 h2] by blast
qed

section \<open>Resuming when the page loads\<close>

text \<open>
  C1. Let the stored collection have pairwise distinct ids (the invariant of the
  collection, kept by every operation), and let \<open>r\<close> be a record of it that is not
  \<open>DELIVERED\<close> and whose \<open>lastUpdate\<close> lies 45 seconds or more before the clock at
  which \<open>checkExistingOrders\<close> runs. Then the call ignores \<open>r\<close>, whatever it does for
  another record: nothing it writes and no notification it shows is for the id of
  \<open>r\<close>, every timer pending afterwards was pending before or is not a transition of
  the id of \<open>r\<close>, \<open>currentOrderId\<close> is not set to the id of \<open>r\<close>, and the collection
  still holds \<open>r\<close> as it was.
\<close>

theorem stale_record_is_ignored:
  assumes "read_orders (storage s) = Inr os" and "distinct (map order_id os)"
    and "r \<in> set os" and "status r \<noteq> DELIVERED" and "45000 \<le> clock s - lastUpdate r"
    and "s' = state_of (checkExistingOrders s)"
  shows "(\<exists>ws. written s' = written s @ ws \<and> (\<forall>w\<in>set ws. order_id w \<noteq> order_id r)) \<and>
         (\<exists>ns. shown s' = shown s @ ns \<and> (\<forall>n\<in>set ns. snd n \<noteq> order_id r)) \<and>
         (\<forall>tm\<in>set (pending s'). tm \<in> set (pending s) \<or>
             (\<forall>st. action tm \<noteq> Transition (order_id r) st)) \<and>
         (currentOrderId s' = currentOrderId s \<or> currentOrderId s' \<noteq> Some (order_id r)) \<and>
         getOrderStatus (order_id r) s' = Inr (Some r)"
proof -
  have g: "getOrderStatus (order_id r) s = Inr (Some r)"
    using assms(1-3) by (simp add: getOrderStatus_def find_distinct)
  have other: "order_id x \<noteq> order_id r"
    if "x \<in> set os" and "clock s - lastUpdate x < 45000" for x
  proof
    assume "order_id x = order_id r"
    with assms(2,3) that(1) have "x = r" by (auto simp: distinct_map inj_on_def)
    with that(2) assms(5) show False by simp
  qed
  from assms(1) show ?thesis
  proof (cases rule: checkExistingOrders_selects)
    case idle
    with g show ?thesis by (simp add: assms(6))
  next
    case (resume x)
    have ne: "order_id x \<noteq> order_id r" using resume(1,2) by (rule other)
    show ?thesis
    proof (cases "storage_full s")
      case True
      show ?thesis
        using g ne
        by (auto simp: assms(6) resume(4) startOrderTracking_full [OF assms(1) True]
              getOrderStatus_def)
    next
      case False
      show ?thesis
        using g ne assms(1)
        by (auto simp: assms(6) resume(4) startOrderTracking_Done [OF assms(1) False]
              getOrderStatus_def find_upsert_other)
    qed
  next
    case (skip x st ts)
    have ne: "order_id x \<noteq> order_id r" using skip(1,2) by (rule other)
    show ?thesis
    proof (cases "storage_full s")
      case True
      show ?thesis
        using g by (simp add: assms(6) skip(4) saveOrderStatus_full [OF assms(1) True])
    next
      case False
      let ?r1 = "\<lparr>order_id = order_id x, status = st, timestamp = ts, lastUpdate = clock s\<rparr>"
      let ?s1 = "s\<lparr>storage := Some (OrdersJson (upsert ?r1 os)), written := written s @ [?r1]\<rparr>"
      have r1: "read_orders (storage ?s1) = Inr (upsert ?r1 os)" and f1: "\<not> storage_full ?s1"
        using False by simp_all
      show ?thesis
        using g ne assms(1)
        by (auto simp: assms(6) skip(4) saveOrderStatus_Done [OF assms(1) False]
              startOrderTracking_Done [OF r1 f1] getOrderStatus_def find_upsert_other)
    qed
  qed
qed

theorem stale_record_is_ignored_witness:
  "read_orders (storage (loaded_page (Some (OrdersJson
      [\<lparr>order_id = ''a'', status = PLACED, timestamp = 40000, lastUpdate = 50000\<rparr>,
       \<lparr>order_id = ''b'', status = READY, timestamp = 80000, lastUpdate = 98000\<rparr>]))
      False True 100000)) =
     Inr [\<lparr>order_id = ''a'', status = PLACED, timestamp = 40000, lastUpdate = 50000\<rparr>,
          \<lparr>order_id = ''b'', status = READY, timestamp = 80000, lastUpdate = 98000\<rparr>] \<and>
   distinct (map order_id
     [\<lparr>order_id = ''a'', status = PLACED, timestamp = 40000, lastUpdate = 50000\<rparr>,
      \<lparr>order_id = ''b'', status = READY, timestamp = 80000, lastUpdate = 98000\<rparr>]) \<and>
   status \<lparr>order_id = ''a'', status = PLACED, timestamp = 40000, lastUpdate = 50000\<rparr>
     \<noteq> DELIVERED \<and>
   45000 \<le> clock (loaded_page (Some (OrdersJson
      [\<lparr>order_id = ''a'', status = PLACED, timestamp = 40000, lastUpdate = 50000\<rparr>,
       \<lparr>order_id = ''b'', status = READY, timestamp = 80000, lastUpdate = 98000\<rparr>]))
      False True 100000) -
     lastUpdate \<lparr>order_id = ''a'', status = PLACED, timestamp = 40000, lastUpdate = 50000\<rparr> \<and>
   list_all (\<lambda>w. order_id w \<noteq> ''a'')
     (written (state_of (checkExistingOrders (loaded_page (Some (OrdersJson
      [\<lparr>order_id = ''a'', status = PLACED, timestamp = 40000, lastUpdate = 50000\<rparr>,
       \<lparr>order_id = ''b'', status = READY, timestamp = 80000, lastUpdate = 98000\<rparr>]))
      False True 100000)))) \<and>
   getOrderStatus ''a'' (state_of (checkExistingOrders (loaded_page (Some (OrdersJson
      [\<lparr>order_id = ''a'', status = PLACED, timestamp = 40000, lastUpdate = 50000\<rparr>,
       \<lparr>order_id = ''b'', status = READY, timestamp = 80000, lastUpdate = 98000\<rparr>]))
      False True 100000))) =
     Inr (Some \<lparr>order_id = ''a'', status = PLACED, timestamp = 40000, lastUpdate = 50000\<rparr>)"
proof -
  let ?a = "\<lparr>order_id = ''a'', status = PLACED, timestamp = 40000, lastUpdate = 50000\<rparr>"
  let ?os = "[?a, \<lparr>order_id = ''b'', status = READY, timestamp = 80000, lastUpdate = 98000\<rparr>]"
  let ?s = "loaded_page (Some (OrdersJson ?os)) False True 100000"
  have h1: "read_orders (storage ?s) = Inr ?os" by (simp add: loaded_page_def)
  have h2: "distinct (map order_id ?os)" by simp
  have h3: "?a \<in> set ?os" by simp
  have h4: "status ?a \<noteq> DELIVERED" by simp
  have h5: "45000 \<le> clock ?s - lastUpdate ?a" by (simp add: loaded_page_def)
  have w: "written ?s = []" by (simp add: loaded_page_def)
  show ?thesis
    using h1 h2 h4 h5 stale_record_is_ignored [OF h1 h2 h3 h4 h5 refl]
    by (auto simp: w list_all_iff)
qed

text \<open>
  C2. Let the collection hold exactly one record, not \<open>DELIVERED\<close>, last updated less
  than 45 seconds ago (5 seconds, say), whose \<open>timestamp\<close> lies in the Preparing
  window: between 10 and 20 seconds ago (12 seconds, say). Then
  \<open>checkExistingOrders\<close> first saves status \<open>PREPARING\<close> for its id with the
  \<open>timestamp\<close> set back to the old \<open>timestamp\<close> plus 10000 ms, and then calls
  \<open>startOrderTracking\<close> for the same id. That call writes \<open>PLACED\<close> at the current
  clock over the record and schedules all four transitions at their full delays of
  10, 20, 30 and 45 seconds from now; none is skipped. The timers pending afterwards
  are those the call did not clear, the timer closing the notification of \<open>PLACED\<close>
  when one was shown, and these four.
\<close>

theorem resume_in_preparing_window:
  assumes "storage s = Some (OrdersJson [r])" and "\<not> storage_full s"
    and "status r \<noteq> DELIVERED" and "clock s - lastUpdate r < 45000"
    and "10000 \<le> clock s - timestamp r" and "clock s - timestamp r < 20000"
  shows "checkExistingOrders s =
           and_then (saveOrderStatus (order_id r) PREPARING (timestamp r + 10000) s)
             (startOrderTracking (order_id r)) \<and>
         (\<exists>s'. checkExistingOrders s = Done s' \<and>
            written s' = written s @
              [\<lparr>order_id = order_id r, status = PREPARING, timestamp = timestamp r + 10000,
                 lastUpdate = clock s\<rparr>,
               \<lparr>order_id = order_id r, status = PLACED, timestamp = clock s,
                 lastUpdate = clock s\<rparr>] \<and>
            storage s' = Some (OrdersJson
              [\<lparr>order_id = order_id r, status = PLACED, timestamp = clock s,
                 lastUpdate = clock s\<rparr>]) \<and>
            shown s' = (if granted s then shown s @ [(PLACED, order_id r)] else shown s) \<and>
            map (\<lambda>tm. (due tm, action tm)) (pending s') =
              map (\<lambda>tm. (due tm, action tm))
                (filter (\<lambda>t. handle t \<notin> set (orderStatusTimeouts s)) (pending s)) @
              (if granted s then [(clock s + 5000, CloseNotification (length (shown s)))]
               else []) @
              [(clock s + 10000, Transition (order_id r) PREPARING),
               (clock s + 20000, Transition (order_id r) READY),
               (clock s + 30000, Transition (order_id r) ON_WAY),
               (clock s + 45000, Transition (order_id r) DELIVERED)] \<and>
            map handle (filter is_transition (pending s')) =
              map handle (filter is_transition
                (filter (\<lambda>t. handle t \<notin> set (orderStatusTimeouts s)) (pending s))) @
              orderStatusTimeouts s')"
proof -
  let ?r1 = "\<lparr>order_id = order_id r, status = PREPARING, timestamp = timestamp r + 10000,
              lastUpdate = clock s\<rparr>"
  let ?s1 = "s\<lparr>storage := Some (OrdersJson [?r1]), written := written s @ [?r1]\<rparr>"
  have h: "read_orders (storage s) = Inr [r]" using assms(1) by simp
  have c: "checkExistingOrders s =
           and_then (saveOrderStatus (order_id r) PREPARING (timestamp r + 10000) s)
             (startOrderTracking (order_id r))"
    using assms
    by (simp add: checkExistingOrders_def Let_def ORDER_TIMINGS_PREPARING_def
          ORDER_TIMINGS_READY_def ORDER_TIMINGS_DELIVERED_def)
  have r1: "read_orders (storage ?s1) = Inr [?r1]" and f1: "\<not> storage_full ?s1"
    using assms(2) by simp_all
  have "saveOrderStatus (order_id r) PREPARING (timestamp r + 10000) s = Done ?s1"
    by (simp add: saveOrderStatus_Done [OF h assms(2)] upsert_Cons)
  then show ?thesis
    unfolding c
    by (simp add: startOrderTracking_Done [OF r1 f1] upsert_Cons is_transition_def)
qed

theorem resume_in_preparing_window_witness:
  "storage (loaded_page (Some (OrdersJson
      [\<lparr>order_id = ''a'', status = PLACED, timestamp = 88000, lastUpdate = 95000\<rparr>]))
      False True 100000) =
     Some (OrdersJson
      [\<lparr>order_id = ''a'', status = PLACED, timestamp = 88000, lastUpdate = 95000\<rparr>]) \<and>
   (\<exists>s'. checkExistingOrders (loaded_page (Some (OrdersJson
      [\<lparr>order_id = ''a'', status = PLACED, timestamp = 88000, lastUpdate = 95000\<rparr>]))
      False True 100000) = Done s' \<and>
     written s' =
       [\<lparr>order_id = ''a'', status = PREPARING, timestamp = 98000, lastUpdate = 100000\<rparr>,
        \<lparr>order_id = ''a'', status = PLACED, timestamp = 100000, lastUpdate = 100000\<rparr>] \<and>
     map (\<lambda>tm. (due tm, action tm)) (pending s') =
       [(105000, CloseNotification 0),
        (110000, Transition ''a'' PREPARING),
        (120000, Transition ''a'' READY),
        (130000, Transition ''a'' ON_WAY),
        (145000, Transition ''a'' DELIVERED)])"
proof -
  let ?a = "\<lparr>order_id = ''a'', status = PLACED, timestamp = 88000, lastUpdate = 95000\<rparr>"
  let ?s = "loaded_page (Some (OrdersJson [?a])) False True 100000"
  have h1: "storage ?s = Some (OrdersJson [?a])" and h2: "\<not> storage_full ?s"
    and h3: "status ?a \<noteq> DELIVERED" and h4: "clock ?s - lastUpdate ?a < 45000"
    and h5: "10000 \<le> clock ?s - timestamp ?a" and h6: "clock ?s - timestamp ?a < 20000"
    by (simp_all add: loaded_page_def)
  have f: "clock ?s = 100000" "written ?s = []" "pending ?s = []" "shown ?s = []"
    "granted ?s"
    by (simp_all add: loaded_page_def)
  obtain s' where "checkExistingOrders ?s = Done s'"
    and "written s' = written ?s @
       [\<lparr>order_id = order_id ?a, status = PREPARING, timestamp = timestamp ?a + 10000,
          lastUpdate = clock ?s\<rparr>,
        \<lparr>order_id = order_id ?a, status = PLACED, timestamp = clock ?s,
          lastUpdate = clock ?s\<rparr>]"
    and "map (\<lambda>tm. (due tm, action tm)) (pending s') =
       map (\<lambda>tm. (due tm, action tm))
         (filter (\<lambda>t. handle t \<notin> set (orderStatusTimeouts ?s)) (pending ?s)) @
       (if granted ?s then [(clock ?s + 5000, CloseNotification (length (shown ?s)))]
        else []) @
       [(clock ?s + 10000, Transition (order_id ?a) PREPARING),
        (clock ?s + 20000, Transition (order_id ?a) READY),
        (clock ?s + 30000, Transition (order_id ?a) ON_WAY),
        (clock ?s + 45000, Transition (order_id ?a) DELIVERED)]"
    using resume_in_preparing_window [OF h1 h2 h3 h4 h5 h6]
    by (elim exE conjE) (rule that, assumption+)
  then show ?thesis using h1 by (simp add: f)
qed

end
